theory Spec2Isabelle
  imports Main
begin

section \<open>Python strings\<close>

text \<open>
  A Python \<open>str\<close> is a sequence of Unicode code points, and \<open>len\<close>, slicing and
  \<open>strip\<close> count code points. A string is therefore a list of code points, each a
  natural number; \<open>py\<close> turns an ASCII literal into such a list. An exception is a
  value: a function that can raise returns a sum, \<open>Inl\<close> for the exception and
  \<open>Inr\<close> for the value returned. What the program prints to the console is left out.
\<close>

type_synonym pystr = "nat list"

definition py :: "string \<Rightarrow> pystr" where
  "py s = map of_char s"

text \<open>
  \<open>str.isspace\<close> for one code point: the set that \<open>str.strip()\<close> without argument
  removes and that \<open>\s\<close> matches in a \<open>str\<close> pattern of \<open>re\<close> (both ask
  \<open>Py_UNICODE_ISSPACE\<close>): U+0009 to U+000D, U+001C to U+001F, U+0020, U+0085, U+00A0,
  U+1680, U+2000 to U+200A, U+2028, U+2029, U+202F, U+205F and U+3000.
\<close>

definition isspace :: "nat \<Rightarrow> bool" where
  "isspace c \<longleftrightarrow>
     (9 \<le> c \<and> c \<le> 13) \<or> (28 \<le> c \<and> c \<le> 32) \<or> c = 133 \<or> c = 160 \<or> c = 5760 \<or>
     (8192 \<le> c \<and> c \<le> 8202) \<or> c = 8232 \<or> c = 8233 \<or> c = 8239 \<or> c = 8287 \<or> c = 12288"

text \<open>\<open>s.strip()\<close>: leading and trailing whitespace removed.\<close>

definition strip :: "pystr \<Rightarrow> pystr" where
  "strip s = rev (dropWhile isspace (rev (dropWhile isspace s)))"

text \<open>
  \<open>s.split('\n')\<close>: the pieces between line feeds (code point 10); the result is never
  empty (\<open>''.split('\n') == ['']\<close>) and a trailing line feed gives a last empty piece.
\<close>

fun split_lines :: "pystr \<Rightarrow> pystr list" where
  "split_lines [] = [[]]"
| "split_lines (c # cs) =
     (if c = 10 then [] # split_lines cs
      else (case split_lines cs of
              [] \<Rightarrow> [[c]]
            | l # ls \<Rightarrow> (c # l) # ls))"

text \<open>\<open>'\n'.join(xs)\<close>.\<close>

fun join_lines :: "pystr list \<Rightarrow> pystr" where
  "join_lines [] = []"
| "join_lines [x] = x"
| "join_lines (x # y # ys) = x @ [10] @ join_lines (y # ys)"

text \<open>\<open>s.startswith(p)\<close> and \<open>p in s\<close> (substring test).\<close>

definition startswith :: "pystr \<Rightarrow> pystr \<Rightarrow> bool" where
  "startswith s p \<longleftrightarrow> take (length p) s = p"

fun contains :: "pystr \<Rightarrow> pystr \<Rightarrow> bool" where
  "contains [] p = (p = [])"
| "contains (c # cs) p = (startswith (c # cs) p \<or> contains cs p)"

text \<open>
  \<open>s.lower()\<close>. Below U+0100 the letters with a lower-case form are A to Z and U+00C0 to
  U+00DE without the multiplication sign U+00D7, each 32 below its lower-case form. Code
  points from U+0100 on are left as they are: the program uses \<open>lower()\<close> only to test
  for the ASCII substring \<open>action\<close>, and the only such code point whose lower-case form
  holds a letter of that word is U+0130, which becomes \<open>i\<close> followed by U+0307 and so
  never \<open>i\<close> followed by \<open>o\<close>.
\<close>

definition lower_char :: "nat \<Rightarrow> nat" where
  "lower_char c =
     (if (65 \<le> c \<and> c \<le> 90) \<or> (192 \<le> c \<and> c \<le> 222 \<and> c \<noteq> 215) then c + 32 else c)"

definition lower :: "pystr \<Rightarrow> pystr" where
  "lower s = map lower_char s"

section \<open>Action items and the line-based fallback\<close>

text \<open>The dictionaries the extractor returns have exactly these four keys.\<close>

record action_item =
  description :: pystr
  assignee :: pystr
  due_date :: pystr
  priority :: pystr

text \<open>
  \<open>re.sub(r'^[-*]\s*', '', line)\<close>: without \<open>re.MULTILINE\<close> the pattern matches at
  position 0 only, so at most one leading \<open>-\<close> (45) or \<open>*\<close> (42) goes, with all the
  whitespace that follows it.
\<close>

definition strip_bullet :: "pystr \<Rightarrow> pystr" where
  "strip_bullet line =
     (case line of
        [] \<Rightarrow> []
      | c # cs \<Rightarrow> if c = 45 \<or> c = 42 then dropWhile isspace cs else line)"

text \<open>The record appended for a cleaned line (lines 189 to 194).\<close>

definition text_item :: "pystr \<Rightarrow> action_item" where
  "text_item clean_line =
     \<lparr>description = clean_line, assignee = py ''Unassigned'',
      due_date = py ''No due date specified'', priority = py ''Medium''\<rparr>"

text \<open>
  The loop of \<open>_parse_text_action_items\<close> (lines 183 to 194), with \<open>action_items\<close> as
  the accumulator.
\<close>

fun text_loop :: "pystr list \<Rightarrow> action_item list \<Rightarrow> action_item list" where
  "text_loop [] action_items = action_items"
| "text_loop (l # lines) action_items =
     (let line = strip l in
      if line \<noteq> [] \<and>
         (startswith line (py ''-'') \<or> startswith line (py ''*'') \<or>
          contains (lower line) (py ''action''))
      then
        (let clean_line = strip_bullet line in
         if clean_line \<noteq> [] then text_loop lines (action_items @ [text_item clean_line])
         else text_loop lines action_items)
      else text_loop lines action_items)"

text \<open>
  \<open>_parse_text_action_items\<close> (an Isabelle name cannot start with an underscore). None
  of its operations can raise on a \<open>str\<close>, so it is a total function to lists.
\<close>

definition parse_text_action_items :: "pystr \<Rightarrow> action_item list" where
  "parse_text_action_items text = take 10 (text_loop (split_lines text) [])"

section \<open>The JSON decoder\<close>

text \<open>
  \<open>json.loads\<close> is Python's standard decoder (\<open>json/decoder.py\<close> and
  \<open>json/scanner.py\<close>, whose structure the functions below follow; digits are the
  ASCII digits, as in the C scanner that CPython uses). Every syntax error is a
  \<open>JSONDecodeError\<close>. A number keeps its lexeme: the program never computes with
  one. Two limits of the interpreter make \<open>json.loads\<close> raise something else, and
  both are parameters of the decoder: an integer with more digits than
  \<open>sys.get_int_max_str_digits()\<close> (4300 by default, 0 for no limit) raises
  \<open>ValueError\<close>, and an array or object nested deeper than what is left of the
  recursion limit raises \<open>RecursionError\<close>.
\<close>

datatype json =
  JNull
| JBool bool
| JNumber pystr
| JString pystr
| JArray "json list"
| JObject "(pystr \<times> json) list"

datatype py_error = JSONDecodeError | AttributeError | TypeError | ValueError | RecursionError

record limits =
  max_str_digits :: nat
  max_nesting :: nat

text \<open>The decoder's \<open>WHITESPACE\<close>: space, tab, line feed, carriage return.\<close>

definition json_ws :: "nat \<Rightarrow> bool" where
  "json_ws c \<longleftrightarrow> c = 32 \<or> c = 9 \<or> c = 10 \<or> c = 13"

definition skip_ws :: "pystr \<Rightarrow> pystr" where
  "skip_ws s = dropWhile json_ws s"

definition hex_digit :: "nat \<Rightarrow> nat option" where
  "hex_digit c =
     (if 48 \<le> c \<and> c \<le> 57 then Some (c - 48)
      else if 65 \<le> c \<and> c \<le> 70 then Some (c - 55)
      else if 97 \<le> c \<and> c \<le> 102 then Some (c - 87)
      else None)"

text \<open>\<open>_decode_uXXXX\<close>: the four hexadecimal digits after \<open>\u\<close>.\<close>

fun decode_uXXXX :: "pystr \<Rightarrow> nat option" where
  "decode_uXXXX (a # b # c # d # rest) =
     (case (hex_digit a, hex_digit b, hex_digit c, hex_digit d) of
        (Some w, Some x, Some y, Some z) \<Rightarrow> Some (((w * 16 + x) * 16 + y) * 16 + z)
      | _ \<Rightarrow> None)"
| "decode_uXXXX _ = None"

text \<open>The table \<open>BACKSLASH\<close> of one-letter escapes.\<close>

definition backslash :: "nat \<Rightarrow> nat option" where
  "backslash esc =
     (if esc = 34 then Some 34
      else if esc = 92 then Some 92
      else if esc = 47 then Some 47
      else if esc = 98 then Some 8
      else if esc = 102 then Some 12
      else if esc = 110 then Some 10
      else if esc = 114 then Some 13
      else if esc = 116 then Some 9
      else None)"

definition add_char :: "nat \<Rightarrow> (pystr \<times> pystr) option \<Rightarrow> (pystr \<times> pystr) option" where
  "add_char c r = (case r of None \<Rightarrow> None | Some (chunk, rest) \<Rightarrow> Some (c # chunk, rest))"

text \<open>
  \<open>scanstring\<close> in strict mode, from just after the opening quote: the decoded string
  and the input after the closing quote, or \<open>None\<close> for a \<open>JSONDecodeError\<close>
  (unterminated string, control character below U+0020, bad escape). A high surrogate
  followed by a low one is joined into one code point.
\<close>

fun scanstring :: "pystr \<Rightarrow> (pystr \<times> pystr) option" where
  "scanstring [] = None"
| "scanstring (c # cs) =
     (if c = 34 then Some ([], cs)
      else if c = 92 then
        (case cs of
           [] \<Rightarrow> None
         | esc # cs' \<Rightarrow>
             if esc = 117 then
               (case decode_uXXXX cs' of
                  None \<Rightarrow> None
                | Some uni \<Rightarrow>
                    if 55296 \<le> uni \<and> uni \<le> 56319 \<and> take 2 (drop 4 cs') = [92, 117] then
                      (case decode_uXXXX (drop 6 cs') of
                         None \<Rightarrow> None
                       | Some uni2 \<Rightarrow>
                           if 56320 \<le> uni2 \<and> uni2 \<le> 57343
                           then add_char (65536 + ((uni - 55296) * 1024 + (uni2 - 56320)))
                                  (scanstring (drop 10 cs'))
                           else add_char uni (scanstring (drop 4 cs')))
                    else add_char uni (scanstring (drop 4 cs')))
             else
               (case backslash esc of
                  None \<Rightarrow> None
                | Some ch \<Rightarrow> add_char ch (scanstring cs')))
      else if c < 32 then None
      else add_char c (scanstring cs))"

text \<open>
  \<open>NUMBER_RE\<close>, \<open>(-?(?:0|[1-9][0-9]*))(\.[0-9]+)?([eE][-+]?[0-9]+)?\<close>, matched at the
  start of the input: the lexeme and the rest.
\<close>

definition is_digit :: "nat \<Rightarrow> bool" where
  "is_digit c \<longleftrightarrow> 48 \<le> c \<and> c \<le> 57"

definition match_int :: "pystr \<Rightarrow> (pystr \<times> pystr) option" where
  "match_int s =
     (let (sign, t) = (case s of [] \<Rightarrow> ([], s) | c # cs \<Rightarrow> if c = 45 then ([c], cs) else ([], s))
      in case t of
           [] \<Rightarrow> None
         | d # ds \<Rightarrow>
             if d = 48 then Some (sign @ [d], ds)
             else if 49 \<le> d \<and> d \<le> 57
             then Some (sign @ d # takeWhile is_digit ds, dropWhile is_digit ds)
             else None)"

definition match_frac :: "pystr \<Rightarrow> pystr \<times> pystr" where
  "match_frac s =
     (case s of
        c # d # ds \<Rightarrow>
          if c = 46 \<and> is_digit d then (c # d # takeWhile is_digit ds, dropWhile is_digit ds)
          else ([], s)
      | _ \<Rightarrow> ([], s))"

definition match_exp :: "pystr \<Rightarrow> pystr \<times> pystr" where
  "match_exp s =
     (case s of
        [] \<Rightarrow> ([], s)
      | e # t \<Rightarrow>
          if e = 101 \<or> e = 69 then
            (let (sign, t') =
               (case t of [] \<Rightarrow> ([], t) | c # cs \<Rightarrow> if c = 45 \<or> c = 43 then ([c], cs) else ([], t))
             in case t' of
                  [] \<Rightarrow> ([], s)
                | d # ds \<Rightarrow>
                    if is_digit d
                    then (e # sign @ d # takeWhile is_digit ds, dropWhile is_digit ds)
                    else ([], s))
          else ([], s))"

definition match_number :: "pystr \<Rightarrow> (pystr \<times> pystr) option" where
  "match_number s =
     (case match_int s of
        None \<Rightarrow> None
      | Some (i, r) \<Rightarrow>
          (let (f, r') = match_frac r; (e, r'') = match_exp r' in Some (i @ f @ e, r'')))"

text \<open>
  An integer lexeme (no fraction, no exponent) goes to \<open>int\<close>, which counts its
  digits without the sign; any other number goes to \<open>float\<close>, which has no limit.
\<close>

definition int_too_long :: "limits \<Rightarrow> pystr \<Rightarrow> bool" where
  "int_too_long L lexeme \<longleftrightarrow>
     list_all (\<lambda>c. c = 45 \<or> is_digit c) lexeme \<and>
     0 < max_str_digits L \<and> max_str_digits L < length (filter is_digit lexeme)"

text \<open>
  The result of a scan: a value and the input left; \<open>Invalid\<close>, a
  \<open>JSONDecodeError\<close>; \<open>Raised\<close>, another exception (\<open>ValueError\<close> or
  \<open>RecursionError\<close>); or the budget of the definition used up. That budget only
  makes the three mutually recursive scanners structurally recursive: \<open>json_loads\<close>
  hands out twice the input's length plus one, which they cannot use up
  (\<open>json_loads_not_exhausted\<close> below).
\<close>

datatype 'a parsed = Parsed 'a pystr | Invalid | Raised py_error | Exhausted

text \<open>
  \<open>scan_once\<close> decodes the value that starts at the head of the input; \<open>json_array\<close>
  is the loop of \<open>JSONArray\<close>, entered at the first character of an element with the
  elements decoded so far; \<open>json_object\<close> is the loop of \<open>JSONObject\<close>, entered at the
  opening quote of a key with the pairs decoded so far (in source order). \<open>level\<close>
  is the number of arrays and objects around the value: entering one more
  (\<open>Py_EnterRecursiveCall\<close> in the scanner) raises \<open>RecursionError\<close> when
  \<open>max_nesting\<close> are open already.
\<close>

fun scan_once :: "limits \<Rightarrow> nat \<Rightarrow> nat \<Rightarrow> pystr \<Rightarrow> json parsed"
  and json_array :: "limits \<Rightarrow> nat \<Rightarrow> nat \<Rightarrow> pystr \<Rightarrow> json list \<Rightarrow> json parsed"
  and json_object ::
    "limits \<Rightarrow> nat \<Rightarrow> nat \<Rightarrow> pystr \<Rightarrow> (pystr \<times> json) list \<Rightarrow> json parsed" where
  "scan_once L 0 level s = Exhausted"
| "scan_once L (Suc n) level s =
     (case s of
        [] \<Rightarrow> Invalid
      | c # cs \<Rightarrow>
          if c = 34 then
            (case scanstring cs of
               None \<Rightarrow> Invalid
             | Some (str, rest) \<Rightarrow> Parsed (JString str) rest)
          else if c = 123 then
            (if max_nesting L \<le> level then Raised RecursionError
             else
               (case skip_ws cs of
                  [] \<Rightarrow> Invalid
                | d # ds \<Rightarrow>
                    if d = 125 then Parsed (JObject []) ds
                    else if d = 34 then json_object L n (Suc level) (d # ds) []
                    else Invalid))
          else if c = 91 then
            (if max_nesting L \<le> level then Raised RecursionError
             else
               (case skip_ws cs of
                  [] \<Rightarrow> Invalid
                | d # ds \<Rightarrow>
                    if d = 93 then Parsed (JArray []) ds
                    else json_array L n (Suc level) (d # ds) []))
          else if startswith s (py ''null'') then Parsed JNull (drop 4 s)
          else if startswith s (py ''true'') then Parsed (JBool True) (drop 4 s)
          else if startswith s (py ''false'') then Parsed (JBool False) (drop 5 s)
          else
            (case match_number s of
               Some (lexeme, rest) \<Rightarrow>
                 if int_too_long L lexeme then Raised ValueError
                 else Parsed (JNumber lexeme) rest
             | None \<Rightarrow>
                 if startswith s (py ''NaN'') then Parsed (JNumber (py ''NaN'')) (drop 3 s)
                 else if startswith s (py ''Infinity'')
                 then Parsed (JNumber (py ''Infinity'')) (drop 8 s)
                 else if startswith s (py ''-Infinity'')
                 then Parsed (JNumber (py ''-Infinity'')) (drop 9 s)
                 else Invalid))"
| "json_array L 0 level s values = Exhausted"
| "json_array L (Suc n) level s values =
     (case scan_once L n level s of
        Parsed v rest \<Rightarrow>
          (case skip_ws rest of
             [] \<Rightarrow> Invalid
           | d # ds \<Rightarrow>
               if d = 93 then Parsed (JArray (values @ [v])) ds
               else if d = 44 then json_array L n level (skip_ws ds) (values @ [v])
               else Invalid)
      | Invalid \<Rightarrow> Invalid
      | Raised e \<Rightarrow> Raised e
      | Exhausted \<Rightarrow> Exhausted)"
| "json_object L 0 level s pairs = Exhausted"
| "json_object L (Suc n) level s pairs =
     (case s of
        [] \<Rightarrow> Invalid
      | q # cs \<Rightarrow>
          if q \<noteq> 34 then Invalid
          else
            (case scanstring cs of
               None \<Rightarrow> Invalid
             | Some (key, rest) \<Rightarrow>
                 (case skip_ws rest of
                    [] \<Rightarrow> Invalid
                  | colon # r1 \<Rightarrow>
                      if colon \<noteq> 58 then Invalid
                      else
                        (case scan_once L n level (skip_ws r1) of
                           Parsed v r2 \<Rightarrow>
                             (case skip_ws r2 of
                                [] \<Rightarrow> Invalid
                              | d # ds \<Rightarrow>
                                  if d = 125 then Parsed (JObject (pairs @ [(key, v)])) ds
                                  else if d = 44
                                  then json_object L n level (skip_ws ds) (pairs @ [(key, v)])
                                  else Invalid)
                         | Invalid \<Rightarrow> Invalid
                         | Raised e \<Rightarrow> Raised e
                         | Exhausted \<Rightarrow> Exhausted))))"

text \<open>
  \<open>json.loads(s)\<close>: one value between optional whitespace, anything after it is
  ``Extra data''.
\<close>

definition json_loads :: "limits \<Rightarrow> pystr \<Rightarrow> py_error + json" where
  "json_loads L s =
     (case scan_once L (2 * length s + 1) 0 (skip_ws s) of
        Parsed obj rest \<Rightarrow> if skip_ws rest = [] then Inr obj else Inl JSONDecodeError
      | Invalid \<Rightarrow> Inl JSONDecodeError
      | Raised e \<Rightarrow> Inl e
      | Exhausted \<Rightarrow> Inl RecursionError)"

section \<open>The Response Extractor\<close>

text \<open>
  \<open>re.search(r'\[.*\]', response, re.DOTALL)\<close> and \<open>.group()\<close>: the search takes the
  leftmost \<open>[\<close> (91) that has a \<open>]\<close> (93) after it, which is the first \<open>[\<close> of the
  text or none at all, and the greedy \<open>.*\<close> (with \<open>DOTALL\<close>, over line feeds too) runs
  to the last \<open>]\<close>.
\<close>

definition json_search :: "pystr \<Rightarrow> pystr option" where
  "json_search response =
     (case dropWhile (\<lambda>c. c \<noteq> 91) response of
        [] \<Rightarrow> None
      | bracket # after \<Rightarrow>
          (case dropWhile (\<lambda>c. c \<noteq> 93) (rev after) of
             [] \<Rightarrow> None
           | r # rs \<Rightarrow> Some (bracket # rev (r # rs))))"

text \<open>
  A decoded object is a \<open>dict\<close> built from the pairs in source order, so a repeated
  key holds its last value. \<open>has_key\<close> is \<open>k in d\<close> and \<open>dict_get\<close> is
  \<open>d.get(k, default)\<close>.
\<close>

definition has_key :: "(pystr \<times> json) list \<Rightarrow> pystr \<Rightarrow> bool" where
  "has_key d k \<longleftrightarrow> map_of d k \<noteq> None"

definition dict_get :: "(pystr \<times> json) list \<Rightarrow> pystr \<Rightarrow> json \<Rightarrow> json" where
  "dict_get d k dflt = (case map_of (rev d) k of None \<Rightarrow> dflt | Some v \<Rightarrow> v)"

text \<open>
  \<open>v.strip()\<close> on a decoded value: only a \<open>str\<close> has the method; \<open>None\<close>, a
  number, a \<open>bool\<close>, a \<open>list\<close> and a \<open>dict\<close> raise \<open>AttributeError\<close>.
\<close>

fun value_strip :: "json \<Rightarrow> py_error + pystr" where
  "value_strip (JString s) = Inr (strip s)"
| "value_strip _ = Inl AttributeError"

text \<open>
  The dictionary built at lines 157 to 162, its four entries evaluated in order; the
  first \<open>strip\<close> that raises ends the evaluation.
\<close>

definition cleaned_item :: "(pystr \<times> json) list \<Rightarrow> py_error + action_item" where
  "cleaned_item item =
     (case value_strip (dict_get item (py ''description'') (JString [])) of
        Inl e \<Rightarrow> Inl e
      | Inr d \<Rightarrow>
     (case value_strip (dict_get item (py ''assignee'') (JString (py ''Unassigned''))) of
        Inl e \<Rightarrow> Inl e
      | Inr a \<Rightarrow>
     (case value_strip (dict_get item (py ''due_date'') (JString (py ''No due date specified''))) of
        Inl e \<Rightarrow> Inl e
      | Inr dd \<Rightarrow>
     (case value_strip (dict_get item (py ''priority'') (JString (py ''Medium''))) of
        Inl e \<Rightarrow> Inl e
      | Inr p \<Rightarrow> Inr \<lparr>description = d, assignee = a, due_date = dd, priority = p\<rparr>))))"

text \<open>The loop at lines 155 to 164, with \<open>cleaned_items\<close> as the accumulator.\<close>

fun clean_loop :: "json list \<Rightarrow> action_item list \<Rightarrow> py_error + action_item list" where
  "clean_loop [] cleaned_items = Inr cleaned_items"
| "clean_loop (JObject item # items) cleaned_items =
     (if has_key item (py ''description'') then
        (case cleaned_item item of
           Inl e \<Rightarrow> Inl e
         | Inr c \<Rightarrow>
             if description c \<noteq> [] then clean_loop items (cleaned_items @ [c])
             else clean_loop items cleaned_items)
      else clean_loop items cleaned_items)"
| "clean_loop (_ # items) cleaned_items = clean_loop items cleaned_items"

text \<open>
  \<open>for item in action_items\<close> over what \<open>json.loads\<close> returned: a list gives its
  elements; a \<open>dict\<close> gives its keys and a \<open>str\<close> its characters, none of them a
  \<open>dict\<close>, so nothing is collected; anything else is not iterable.
\<close>

fun clean_items :: "json \<Rightarrow> py_error + action_item list" where
  "clean_items (JArray items) = clean_loop items []"
| "clean_items (JObject d) = Inr []"
| "clean_items (JString s) = Inr []"
| "clean_items _ = Inl TypeError"

text \<open>The body of the \<open>try\<close> statement of \<open>_parse_action_items\<close> (lines 147 to 169).\<close>

definition parse_body :: "limits \<Rightarrow> pystr \<Rightarrow> py_error + action_item list" where
  "parse_body L response =
     (case json_search response of
        Some json_str \<Rightarrow>
          (case json_loads L json_str of
             Inl e \<Rightarrow> Inl e
           | Inr action_items \<Rightarrow> clean_items action_items)
      | None \<Rightarrow> Inr (parse_text_action_items response))"

text \<open>
  \<open>_parse_action_items\<close> with its two handlers (lines 171 to 176): a
  \<open>JSONDecodeError\<close> goes to the fallback, any other \<open>Exception\<close> gives the empty
  list. \<open>Inr\<close> is a returned list, \<open>Inl\<close> an exception that leaves the function.
  The limits of the interpreter are a parameter, for \<open>json.loads\<close>.
\<close>

definition parse_action_items :: "limits \<Rightarrow> pystr \<Rightarrow> py_error + action_item list" where
  "parse_action_items L response =
     (case parse_body L response of
        Inr items \<Rightarrow> Inr items
      | Inl JSONDecodeError \<Rightarrow> Inr (parse_text_action_items response)
      | Inl _ \<Rightarrow> Inr [])"

section \<open>The fallback rule in the words of the specification\<close>

text \<open>
  ``A line is treated as an action item if, after trimming, it is non-empty AND (it
  starts with \<open>-\<close> or \<open>*\<close>, OR the lowercase form of the line contains the substring
  action).''
\<close>

definition treated_as_action_item :: "pystr \<Rightarrow> bool" where
  "treated_as_action_item l \<longleftrightarrow>
     (let t = strip l in
      t \<noteq> [] \<and>
      (startswith t (py ''-'') \<or> startswith t (py ''*'') \<or> contains (lower t) (py ''action'')))"

text \<open>
  ``Strip a single leading \<open>-\<close>/\<open>*\<close> bullet marker and surrounding whitespace'': of
  the trimmed line, the first character goes when it is a bullet marker, and what is
  left is trimmed on both sides.
\<close>

definition bullet_stripped :: "pystr \<Rightarrow> pystr" where
  "bullet_stripped l =
     (let t = strip l in
      strip (if startswith t (py ''-'') \<or> startswith t (py ''*'') then drop 1 t else t))"

text \<open>``If anything remains, emit a record.''\<close>

definition emitted :: "pystr \<Rightarrow> bool" where
  "emitted l \<longleftrightarrow> treated_as_action_item l \<and> bullet_stripped l \<noteq> []"

text \<open>
  The line-based fallback decides the result: no bracketed region, or a region that
  \<open>json.loads\<close> rejects.
\<close>

definition fallback_runs :: "limits \<Rightarrow> pystr \<Rightarrow> bool" where
  "fallback_runs L response \<longleftrightarrow>
     (case json_search response of
        None \<Rightarrow> True
      | Some json_str \<Rightarrow> json_loads L json_str = Inl JSONDecodeError)"

section \<open>Well-formed arrays in the words of the specification\<close>

text \<open>
  The value a decoded object holds for a key (the last one if the key is repeated),
  and whether a field is missing or holds a JSON string.
\<close>

definition field :: "(pystr \<times> json) list \<Rightarrow> pystr \<Rightarrow> json option" where
  "field d k = map_of (rev d) k"

definition missing_or_text :: "(pystr \<times> json) list \<Rightarrow> pystr \<Rightarrow> bool" where
  "missing_or_text d k \<longleftrightarrow>
     (case field d k of None \<Rightarrow> True | Some (JString s) \<Rightarrow> True | Some _ \<Rightarrow> False)"

text \<open>
  An object with a \<open>description\<close> that is a string and not empty after trimming,
  whose \<open>assignee\<close>, \<open>due_date\<close> and \<open>priority\<close> are strings where present.
\<close>

definition described :: "(pystr \<times> json) list \<Rightarrow> bool" where
  "described d \<longleftrightarrow>
     (case field d (py ''description'') of Some (JString s) \<Rightarrow> strip s \<noteq> [] | _ \<Rightarrow> False) \<and>
     missing_or_text d (py ''assignee'') \<and>
     missing_or_text d (py ''due_date'') \<and>
     missing_or_text d (py ''priority'')"

text \<open>The trimmed text of a field, or the default when the field is missing.\<close>

definition trimmed_or :: "(pystr \<times> json) list \<Rightarrow> pystr \<Rightarrow> pystr \<Rightarrow> pystr" where
  "trimmed_or d k dflt = (case field d k of Some (JString s) \<Rightarrow> strip s | _ \<Rightarrow> dflt)"

definition normalized :: "(pystr \<times> json) list \<Rightarrow> action_item" where
  "normalized d =
     \<lparr>description = trimmed_or d (py ''description'') [],
      assignee = trimmed_or d (py ''assignee'') (py ''Unassigned''),
      due_date = trimmed_or d (py ''due_date'') (py ''No due date specified''),
      priority = trimmed_or d (py ''priority'') (py ''Medium'')\<rparr>"

text \<open>
  The plain-text rendering of a list of action items: the descriptions, one per line.
\<close>

definition render :: "action_item list \<Rightarrow> pystr" where
  "render items = join_lines (map description items)"

text \<open>An input of fifteen lines that are a bullet marker and nothing else.\<close>

definition fifteen_bare_bullets :: pystr where
  "fifteen_bare_bullets = join_lines
     [py ''-'', py ''-'', py ''-'', py ''-'', py ''-'', py ''-'', py ''-'', py ''-'', py ''-'',
      py ''-'', py ''-'', py ''-'', py ''-'', py ''-'', py ''-'']"

text \<open>An input of fifteen bullet lines, \<open>- a\<close> to \<open>- o\<close>, and no bracket.\<close>

definition fifteen_bullets :: pystr where
  "fifteen_bullets = join_lines
     [py ''- a'', py ''- b'', py ''- c'', py ''- d'', py ''- e'', py ''- f'', py ''- g'',
      py ''- h'', py ''- i'', py ''- j'', py ''- k'', py ''- l'', py ''- m'', py ''- n'',
      py ''- o'']"

section \<open>The adapters of the generative-text backend\<close>

text \<open>
  What the program does outside itself is written as explicit state: the files of the
  upload folder, the two tables of the database with the last row ids handed out, and
  the log of the requests posted to the backend, oldest first.
\<close>

record meeting_row =
  m_id :: nat
  m_title :: pystr
  m_date :: pystr
  m_attendees :: pystr
  m_transcription :: pystr
  m_summary :: pystr
  m_created_at :: pystr

record item_row =
  i_id :: nat
  i_meeting_id :: nat
  i_description :: pystr
  i_assignee :: pystr
  i_due_date :: pystr
  i_priority :: pystr
  i_completed :: bool
  i_created_at :: pystr

text \<open>
  The JSON body of a post to \<open>/api/generate\<close>; \<open>stream\<close> and \<open>options\<close> are the
  same constants in every request.
\<close>

record ollama_request =
  req_model :: pystr
  req_prompt :: pystr
  req_system :: pystr

record world =
  uploads :: "pystr \<rightharpoonup> pystr"
  meeting_rows :: "meeting_row list"
  item_rows :: "item_row list"
  last_meeting_id :: nat
  last_item_id :: nat
  posted :: "ollama_request list"

text \<open>
  What \<open>requests.post\<close> does: it raises (with the text \<open>str(e)\<close>), or it returns a
  response with a status code whose \<open>.json()\<close> raises or gives a decoded value.
\<close>

datatype post_outcome = PostRaises pystr | PostResponse nat "pystr + json"

text \<open>
  The collaborators the program calls, as parameters: \<open>werkzeug\<close>'s
  \<open>secure_filename\<close>; whether \<open>file.save\<close> to a path raises; the clock; Whisper
  (with the conversion before it) on a path, giving \<open>result["text"]\<close> or the text of
  what was raised; the limits of the interpreter the program runs in; the model name
  chosen when the service was made; the backend's answer
  to a request, which may depend on how many were posted before; and whether SQLite
  raises on the insert of the meeting or of the \<open>k\<close>-th action item. An error is the
  text \<open>str(e)\<close> of the exception.
\<close>

record env =
  secure_filename :: "pystr \<Rightarrow> pystr"
  save_error :: "pystr \<Rightarrow> pystr option"
  today :: pystr
  now_iso :: pystr
  whisper :: "pystr \<Rightarrow> pystr + pystr"
  interpreter :: limits
  llm_model :: pystr
  ollama :: "nat \<Rightarrow> ollama_request \<Rightarrow> post_outcome"
  meeting_insert_error :: "pystr option"
  item_insert_error :: "nat \<Rightarrow> pystr option"

text \<open>\<open>str(n)\<close> for a status code.\<close>

fun str_nat :: "nat \<Rightarrow> pystr" where
  "str_nat n = (if n < 10 then [48 + n] else str_nat (n div 10) @ [48 + n mod 10])"

declare str_nat.simps [simp del]

text \<open>
  The type name of a decoded value and the text of the \<open>AttributeError\<close> for a
  method it does not have. A number is an \<open>int\<close> when its lexeme has only a sign and
  digits, a \<open>float\<close> otherwise.
\<close>

fun type_name :: "json \<Rightarrow> pystr" where
  "type_name JNull = py ''NoneType''"
| "type_name (JBool b) = py ''bool''"
| "type_name (JNumber lexeme) =
     (if list_all (\<lambda>c. c = 45 \<or> is_digit c) lexeme then py ''int'' else py ''float'')"
| "type_name (JString s) = py ''str''"
| "type_name (JArray xs) = py ''list''"
| "type_name (JObject d) = py ''dict''"

definition no_attribute :: "json \<Rightarrow> pystr \<Rightarrow> pystr" where
  "no_attribute v name =
     [39] @ type_name v @ [39] @ py '' object has no attribute '' @ [39] @ name @ [39]"

text \<open>
  The body of the \<open>try\<close> of \<open>_call_ollama\<close> (lines 42 to 64) on the outcome of the
  post: the stripped \<open>response\<close> field, or the text of the exception raised.
\<close>

definition ollama_result :: "post_outcome \<Rightarrow> pystr + pystr" where
  "ollama_result outcome =
     (case outcome of
        PostRaises msg \<Rightarrow> Inl msg
      | PostResponse status_code body \<Rightarrow>
          if status_code = 200 then
            (case body of
               Inl msg \<Rightarrow> Inl msg
             | Inr (JObject result) \<Rightarrow>
                 (case dict_get result (py ''response'') (JString []) of
                    JString s \<Rightarrow> Inr (strip s)
                  | v \<Rightarrow> Inl (no_attribute v (py ''strip'')))
             | Inr v \<Rightarrow> Inl (no_attribute v (py ''get'')))
          else Inl (py ''Ollama API error: '' @ str_nat status_code))"

text \<open>
  \<open>_call_ollama\<close>: one post, logged; whatever the body of the \<open>try\<close> raises is
  raised again as \<open>LLM service unavailable: ...\<close> (lines 66 to 68).
\<close>

definition call_ollama :: "env \<Rightarrow> pystr \<Rightarrow> pystr \<Rightarrow> world \<Rightarrow> (pystr + pystr) \<times> world" where
  "call_ollama E prompt system_prompt w =
     (let data = \<lparr>req_model = llm_model E, req_prompt = prompt, req_system = system_prompt\<rparr>;
          outcome = ollama E (length (posted w)) data;
          w' = w\<lparr>posted := posted w @ [data]\<rparr>
      in case ollama_result outcome of
           Inl msg \<Rightarrow> (Inl (py ''LLM service unavailable: '' @ msg), w')
         | Inr text \<Rightarrow> (Inr text, w'))"

text \<open>The prompts of \<open>generate_summary\<close> (lines 78 to 91).\<close>

definition summary_system_prompt :: pystr where
  "summary_system_prompt = join_lines
     [py ''You are an expert meeting assistant. Generate a clear, professional meeting summary that includes:'',
      py ''1. Main topics discussed'',
      py ''2. Key decisions made'',
      py ''3. Important points raised'',
      py ''4. Next steps mentioned'',
      [],
      py ''Format the summary in a structured way with clear sections.'']"

definition summary_prompt :: "pystr \<Rightarrow> pystr" where
  "summary_prompt transcription = join_lines
     [py ''Please analyze the following meeting transcription and create a comprehensive summary:'',
      [],
      py ''TRANSCRIPTION:'',
      transcription,
      [],
      py ''Generate a well-structured meeting summary with clear sections for topics, decisions, and next steps.'']"

text \<open>\<open>_format_summary\<close> (lines 130 to 136); 35 is \<open>#\<close>.\<close>

definition format_summary :: "pystr \<Rightarrow> pystr" where
  "format_summary raw_summary =
     (if \<not> startswith raw_summary [35]
      then py ''# Meeting Summary'' @ [10, 10] @ raw_summary
      else raw_summary)"

text \<open>
  \<open>generate_summary\<close> (lines 93 to 97). \<open>Inr\<close> is a returned string, \<open>Inl\<close> an
  exception that leaves the method.
\<close>

definition generate_summary :: "env \<Rightarrow> pystr \<Rightarrow> world \<Rightarrow> (pystr + pystr) \<times> world" where
  "generate_summary E transcription w =
     (case call_ollama E (summary_prompt transcription) summary_system_prompt w of
        (Inr summary, w') \<Rightarrow> (Inr (format_summary summary), w')
      | (Inl e, w') \<Rightarrow> (Inr (py ''Error generating summary: '' @ e), w'))"

text \<open>The prompts of \<open>extract_action_items\<close> (lines 107 to 121).\<close>

definition extraction_system_prompt :: pystr where
  \<open>extraction_system_prompt = join_lines
     [py ''You are an expert at identifying action items from meeting transcriptions. '',
      py ''Extract action items and format them as a JSON array. Each action item should have:'',
      py ''- description: What needs to be done'',
      py ''- assignee: Who is responsible (if mentioned, otherwise "Unassigned")'',
      py ''- due_date: When it'' @ [39] @ py ''s due (if mentioned, otherwise "No due date specified")'',
      py ''- priority: High/Medium/Low based on context'',
      [],
      py ''Return ONLY valid JSON array, no other text.'']\<close>

definition extraction_prompt :: "pystr \<Rightarrow> pystr" where
  "extraction_prompt transcription = join_lines
     [py ''Analyze this meeting transcription and extract all action items:'',
      [],
      py ''TRANSCRIPTION:'',
      transcription,
      [],
      py ''Return a JSON array of action items with description, assignee, due_date, and priority fields.'']"

text \<open>
  \<open>extract_action_items\<close> (lines 123 to 128): an exception of the call or of the
  parser gives the empty list.
\<close>

definition extract_action_items ::
  "env \<Rightarrow> pystr \<Rightarrow> world \<Rightarrow> (pystr + action_item list) \<times> world" where
  "extract_action_items E transcription w =
     (case call_ollama E (extraction_prompt transcription) extraction_system_prompt w of
        (Inr response, w') \<Rightarrow>
          (case parse_action_items (interpreter E) response of
             Inr action_items \<Rightarrow> (Inr action_items, w')
           | Inl e \<Rightarrow> (Inr [], w'))
      | (Inl e, w') \<Rightarrow> (Inr [], w'))"

section \<open>The upload handler\<close>

text \<open>
  \<open>SpeechToTextService.transcribe_audio\<close>: whatever is raised inside is raised again
  as \<open>Failed to transcribe audio: ...\<close>; the text is stripped. A file converted for
  Whisper is a temporary file outside the upload folder, so the uploaded file is not
  touched.
\<close>

definition transcribe_audio :: "env \<Rightarrow> pystr \<Rightarrow> pystr + pystr" where
  "transcribe_audio E audio_path =
     (case whisper E audio_path of
        Inl msg \<Rightarrow> Inl (py ''Failed to transcribe audio: '' @ msg)
      | Inr text \<Rightarrow> Inr (strip text))"

text \<open>
  \<open>Meeting(...).save()\<close> with \<open>id\<close> \<open>None\<close>: one insert, the new row id is returned
  (\<open>AUTOINCREMENT\<close>: one more than the last id handed out). When SQLite raises,
  nothing is committed.
\<close>

definition meeting_save ::
  "env \<Rightarrow> pystr \<Rightarrow> pystr \<Rightarrow> pystr \<Rightarrow> pystr \<Rightarrow> pystr \<Rightarrow> world \<Rightarrow> (pystr + nat) \<times> world" where
  "meeting_save E title date attendees transcription summary w =
     (case meeting_insert_error E of
        Some msg \<Rightarrow> (Inl msg, w)
      | None \<Rightarrow>
          (let rowid = last_meeting_id w + 1;
               row = \<lparr>m_id = rowid, m_title = title, m_date = date, m_attendees = attendees,
                      m_transcription = transcription, m_summary = summary,
                      m_created_at = now_iso E\<rparr>
           in (Inr rowid, w\<lparr>meeting_rows := meeting_rows w @ [row], last_meeting_id := rowid\<rparr>)))"

text \<open>\<open>ActionItem(...).save()\<close> for the \<open>k\<close>-th item of the request.\<close>

definition action_item_save ::
  "env \<Rightarrow> nat \<Rightarrow> nat \<Rightarrow> action_item \<Rightarrow> world \<Rightarrow> (pystr + nat) \<times> world" where
  "action_item_save E meeting_id k item w =
     (case item_insert_error E k of
        Some msg \<Rightarrow> (Inl msg, w)
      | None \<Rightarrow>
          (let rowid = last_item_id w + 1;
               row = \<lparr>i_id = rowid, i_meeting_id = meeting_id, i_description = description item,
                      i_assignee = assignee item, i_due_date = due_date item,
                      i_priority = priority item, i_completed = False,
                      i_created_at = now_iso E\<rparr>
           in (Inr rowid, w\<lparr>item_rows := item_rows w @ [row], last_item_id := rowid\<rparr>)))"

text \<open>The loop at lines 87 to 95: the first insert that raises ends it.\<close>

fun save_items ::
  "env \<Rightarrow> nat \<Rightarrow> nat \<Rightarrow> action_item list \<Rightarrow> world \<Rightarrow> (pystr + unit) \<times> world" where
  "save_items E meeting_id k [] w = (Inr (), w)"
| "save_items E meeting_id k (item # rest) w =
     (case action_item_save E meeting_id k item w of
        (Inl e, w') \<Rightarrow> (Inl e, w')
      | (Inr rowid, w') \<Rightarrow> save_items E meeting_id (Suc k) rest w')"

text \<open>\<open>os.path.join\<close> on POSIX; 47 is \<open>/\<close>.\<close>

definition path_join :: "pystr \<Rightarrow> pystr \<Rightarrow> pystr" where
  "path_join a b =
     (if startswith b [47] then b
      else if a = [] \<or> last a = 47 then a @ b
      else a @ [47] @ b)"

text \<open>\<open>file.save(dst)\<close> and \<open>os.remove(path)\<close> on the files by path.\<close>

record upload =
  filename :: pystr
  content :: pystr

definition file_save :: "env \<Rightarrow> upload \<Rightarrow> pystr \<Rightarrow> world \<Rightarrow> (pystr + unit) \<times> world" where
  "file_save E file dst w =
     (case save_error E dst of
        Some msg \<Rightarrow> (Inl msg, w)
      | None \<Rightarrow> (Inr (), w\<lparr>uploads := (uploads w)(dst \<mapsto> content file)\<rparr>))"

definition os_remove :: "pystr \<Rightarrow> world \<Rightarrow> (pystr + unit) \<times> world" where
  "os_remove path w =
     (case uploads w path of
        None \<Rightarrow>
          (Inl (py ''[Errno 2] No such file or directory: '' @ [39] @ path @ [39]), w)
      | Some data \<Rightarrow> (Inr (), w\<lparr>uploads := (uploads w)(path := None)\<rparr>))"

text \<open>The multipart request and the two JSON answers of the handler.\<close>

record request =
  files :: "pystr \<rightharpoonup> upload"
  form :: "pystr \<rightharpoonup> pystr"

definition form_get :: "request \<Rightarrow> pystr \<Rightarrow> pystr \<Rightarrow> pystr" where
  "form_get req k dflt = (case form req k of None \<Rightarrow> dflt | Some v \<Rightarrow> v)"

record success_body =
  r_success :: bool
  r_meeting_id :: nat
  r_summary :: pystr
  r_action_items :: "action_item list"
  r_transcription :: pystr

datatype response = Success success_body | Error nat pystr

text \<open>
  Line 105: \<open>transcription[:500] + '...' if len(transcription) > 500 else transcription\<close>.
\<close>

definition shown_transcription :: "pystr \<Rightarrow> pystr" where
  "shown_transcription t = (if length t > 500 then take 500 t @ py ''...'' else t)"

text \<open>
  Lines 63 to 106 of \<open>process_audio\<close>, after the file is saved: every exception
  reaches the handler at lines 108 to 110, which answers 500 with \<open>str(e)\<close>.
\<close>

definition process_saved ::
  "env \<Rightarrow> request \<Rightarrow> pystr \<Rightarrow> world \<Rightarrow> response \<times> world" where
  "process_saved E req filepath w =
     (let meeting_title = form_get req (py ''meeting_title'') (py ''Untitled Meeting'');
          meeting_date = form_get req (py ''meeting_date'') (today E);
          attendees = form_get req (py ''attendees'') []
      in
      case transcribe_audio E filepath of
        Inl e \<Rightarrow> (Error 500 e, w)
      | Inr transcription \<Rightarrow>
      (case generate_summary E transcription w of
        (Inl e, w1) \<Rightarrow> (Error 500 e, w1)
      | (Inr summary, w1) \<Rightarrow>
      (case extract_action_items E transcription w1 of
        (Inl e, w2) \<Rightarrow> (Error 500 e, w2)
      | (Inr action_items, w2) \<Rightarrow>
      (case meeting_save E meeting_title meeting_date attendees transcription summary w2 of
        (Inl e, w3) \<Rightarrow> (Error 500 e, w3)
      | (Inr meeting_id, w3) \<Rightarrow>
      (case save_items E meeting_id 0 action_items w3 of
        (Inl e, w4) \<Rightarrow> (Error 500 e, w4)
      | (Inr u, w4) \<Rightarrow>
      (case os_remove filepath w4 of
        (Inl e, w5) \<Rightarrow> (Error 500 e, w5)
      | (Inr u, w5) \<Rightarrow>
          (Success \<lparr>r_success = True, r_meeting_id = meeting_id, r_summary = summary,
                     r_action_items = action_items,
                     r_transcription = shown_transcription transcription\<rparr>, w5)))))))"

text \<open>The path the upload is saved under (lines 54 and 55).\<close>

definition upload_path :: "env \<Rightarrow> upload \<Rightarrow> pystr" where
  "upload_path E file = path_join (py ''uploads'') (secure_filename E (filename file))"

text \<open>\<open>process_audio\<close> (lines 45 to 110).\<close>

definition process_audio :: "env \<Rightarrow> request \<Rightarrow> world \<Rightarrow> response \<times> world" where
  "process_audio E req w =
     (case files req (py ''audio_file'') of
        None \<Rightarrow> (Error 400 (py ''No audio file provided''), w)
      | Some file \<Rightarrow>
          if filename file = [] then (Error 400 (py ''No file selected''), w)
          else
            (case file_save E file (upload_path E file) w of
               (Inl e, w') \<Rightarrow> (Error 500 e, w')
             | (Inr u, w') \<Rightarrow> process_saved E req (upload_path E file) w'))"

section \<open>A concrete request\<close>

text \<open>
  An upload \<open>talk.wav\<close> with no form fields, an empty folder and database, and
  collaborators that are given what Whisper hears, what the backend answers to its
  \<open>k\<close>-th request and whether the inserts raise; \<open>secure_filename\<close> leaves
  \<open>talk.wav\<close> as it is and \<open>file.save\<close> succeeds.
\<close>

text \<open>
  Limits for concrete runs: the default of \<open>sys.get_int_max_str_digits()\<close>, and 900
  for what the caller's frames leave of the default recursion limit of 1000.
\<close>

definition default_limits :: limits where
  "default_limits = \<lparr>max_str_digits = 4300, max_nesting = 900\<rparr>"

definition demo_upload :: upload where
  "demo_upload = \<lparr>filename = py ''talk.wav'', content = py ''RIFF''\<rparr>"

definition demo_request :: request where
  "demo_request = \<lparr>files = [py ''audio_file'' \<mapsto> demo_upload], form = Map.empty\<rparr>"

definition empty_world :: world where
  "empty_world =
     \<lparr>uploads = Map.empty, meeting_rows = [], item_rows = [], last_meeting_id = 0,
      last_item_id = 0, posted = []\<rparr>"

definition demo_env ::
  "(pystr + pystr) \<Rightarrow> (nat \<Rightarrow> post_outcome) \<Rightarrow> pystr option \<Rightarrow> (nat \<Rightarrow> pystr option) \<Rightarrow> env" where
  "demo_env heard answer meeting_error item_error =
     \<lparr>secure_filename = (\<lambda>name. name), save_error = (\<lambda>path. None),
      today = py ''2024-01-05'', now_iso = py ''2024-01-05T10:00:00'',
      whisper = (\<lambda>path. heard), interpreter = default_limits,
      llm_model = py ''llama3.1:8b'',
      ollama = (\<lambda>k data. answer k),
      meeting_insert_error = meeting_error, item_insert_error = item_error\<rparr>"

text \<open>
  A backend that answers the summary request with a short summary and the extraction
  request with an array of two action items.
\<close>

definition two_items_answer :: "nat \<Rightarrow> post_outcome" where
  \<open>two_items_answer k =
     PostResponse 200 (Inr (JObject [(py ''response'', JString
       (if k = 0 then py ''# Summary''
        else py ''[{"description":"Send report"},{"description":"Book room"}]''))]))\<close>

section \<open>Properties of the string operations\<close>

lemma strip_Nil_iff: "strip s = [] \<longleftrightarrow> (\<forall>c \<in> set s. isspace c)"
proof -
  have "strip s = [] \<longleftrightarrow> dropWhile isspace (rev (dropWhile isspace s)) = []"
    by (simp add: strip_def)
  also have "\<dots> \<longleftrightarrow> (\<forall>c \<in> set (dropWhile isspace s). isspace c)"
    by (simp add: dropWhile_eq_Nil_conv)
  also have "\<dots> \<longleftrightarrow> (\<forall>c \<in> set s. isspace c)"
  proof
    assume a: "\<forall>c \<in> set (dropWhile isspace s). isspace c"
    have "dropWhile isspace s = []"
    proof (rule ccontr)
      assume "dropWhile isspace s \<noteq> []"
      then have "\<not> isspace (hd (dropWhile isspace s))" "hd (dropWhile isspace s) \<in> set (dropWhile isspace s)"
        by (simp_all add: hd_dropWhile)
      with a show False by blast
    qed
    then show "\<forall>c \<in> set s. isspace c" by (simp add: dropWhile_eq_Nil_conv)
  next
    assume "\<forall>c \<in> set s. isspace c"
    then show "\<forall>c \<in> set (dropWhile isspace s). isspace c"
      using set_dropWhileD by fastforce
  qed
  finally show ?thesis .
qed

lemma strip_hd: "strip s \<noteq> [] \<Longrightarrow> \<not> isspace (hd (strip s))"
proof -
  assume ne: "strip s \<noteq> []"
  let ?a = "dropWhile isspace s"
  let ?b = "dropWhile isspace (rev ?a)"
  from ne have b: "?b \<noteq> []" by (simp add: strip_def)
  have a: "?a \<noteq> []"
  proof
    assume e: "?a = []"
    have "?b = []" unfolding e by simp
    with b show False by blast
  qed
  have "hd (strip s) = last ?b" using b by (simp add: strip_def hd_rev)
  also have "\<dots> = last (rev ?a)"
  proof -
    have "rev ?a = takeWhile isspace (rev ?a) @ ?b" by simp
    then show ?thesis using b by (metis last_appendR)
  qed
  also have "\<dots> = hd ?a" using a by (simp add: last_rev)
  finally show ?thesis using a by (simp add: hd_dropWhile)
qed

lemma strip_last: "strip s \<noteq> [] \<Longrightarrow> \<not> isspace (last (strip s))"
proof -
  assume ne: "strip s \<noteq> []"
  let ?b = "dropWhile isspace (rev (dropWhile isspace s))"
  from ne have b: "?b \<noteq> []" by (simp add: strip_def)
  have "last (strip s) = hd ?b" using b by (simp add: strip_def last_rev)
  then show ?thesis using b by (simp add: hd_dropWhile)
qed

lemma strip_id: "s = [] \<or> (\<not> isspace (hd s) \<and> \<not> isspace (last s)) \<Longrightarrow> strip s = s"
proof (cases "s = []")
  case True then show ?thesis by (simp add: strip_def)
next
  case False
  assume "s = [] \<or> (\<not> isspace (hd s) \<and> \<not> isspace (last s))"
  with False have h: "\<not> isspace (hd s)" and l: "\<not> isspace (last s)" by auto
  from False h have 1: "dropWhile isspace s = s" by (cases s) auto
  from False l have "\<not> isspace (hd (rev s))" by (simp add: hd_rev)
  with False have 2: "dropWhile isspace (rev s) = rev s" by (cases "rev s") auto
  show ?thesis by (simp add: strip_def 1 2)
qed

lemma strip_strip: "strip (strip s) = strip s"
  by (rule strip_id) (use strip_hd strip_last in blast)

lemma startswith_bullet:
  "startswith t (py ''-'') \<or> startswith t (py ''*'') \<longleftrightarrow> (\<exists>cs. t = 45 # cs \<or> t = 42 # cs)"
  by (cases t) (auto simp: startswith_def py_def)

lemma strip_bullet_spec:
  assumes t: "t = strip l"
  shows "strip_bullet t = bullet_stripped l"
proof (cases t)
  case Nil
  then have sl: "strip l = []" using t by simp
  have "bullet_stripped l = []"
    unfolding bullet_stripped_def Let_def sl by (simp add: startswith_def py_def strip_def)
  then show ?thesis using Nil by (simp add: strip_bullet_def)
next
  case (Cons c cs)
  show ?thesis
  proof (cases "c = 45 \<or> c = 42")
    case False
    then have nb: "\<not> (startswith t (py ''-'') \<or> startswith t (py ''*''))"
      using Cons by (auto simp: startswith_def py_def)
    have "strip_bullet t = t" using Cons False by (simp add: strip_bullet_def)
    moreover have "bullet_stripped l = strip t"
      using nb t by (simp add: bullet_stripped_def Let_def)
    ultimately show ?thesis using t by (simp add: strip_strip)
  next
    case True
    then have b: "startswith t (py ''-'') \<or> startswith t (py ''*'')"
      using Cons by (auto simp: startswith_def py_def)
    have 1: "strip_bullet t = dropWhile isspace cs" using Cons True by (simp add: strip_bullet_def)
    have sl: "strip l = c # cs" using t Cons by simp
    have 2: "bullet_stripped l = strip cs"
      using b unfolding bullet_stripped_def Let_def t sl by simp
    let ?d = "dropWhile isspace cs"
    have "strip cs = ?d"
    proof (cases "?d = []")
      case True
      show ?thesis unfolding strip_def True by simp
    next
      case False
      have "cs = takeWhile isspace cs @ ?d" by simp
      then have "last cs = last ?d" using False by (metis last_appendR)
      moreover have "cs \<noteq> []" using False by auto
      ultimately have "last ?d = last t" using Cons by simp
      moreover have "\<not> isspace (last t)" using strip_last[of l] sl t by simp
      ultimately have "\<not> isspace (hd (rev ?d))" using False by (simp add: hd_rev)
      then have "dropWhile isspace (rev ?d) = rev ?d" using False by (cases "rev ?d") auto
      then show ?thesis by (simp add: strip_def)
    qed
    with 1 2 show ?thesis by simp
  qed
qed

lemma text_loop_filter:
  "text_loop lines acc = acc @ map (\<lambda>l. text_item (bullet_stripped l)) (filter emitted lines)"
proof (induction lines arbitrary: acc)
  case Nil
  then show ?case by simp
next
  case (Cons l lines)
  have eq: "strip_bullet (strip l) = bullet_stripped l" by (rule strip_bullet_spec) simp
  show ?case
    by (simp add: Cons.IH Let_def eq emitted_def treated_as_action_item_def)
qed

lemma parse_text_filter:
  "parse_text_action_items text =
     map (\<lambda>l. text_item (bullet_stripped l)) (take 10 (filter emitted (split_lines text)))"
  by (simp add: parse_text_action_items_def text_loop_filter take_map)

lemma parse_text_length: "length (parse_text_action_items text) \<le> 10"
  by (simp add: parse_text_action_items_def)

lemma fallback_runs_result:
  "fallback_runs L response \<Longrightarrow>
   parse_action_items L response = Inr (parse_text_action_items response)"
  by (auto simp: fallback_runs_def parse_action_items_def parse_body_def split: option.splits)

section \<open>The decoder consumes its input and stays within its budget\<close>

lemma skip_ws_length: "length (skip_ws s) \<le> length s"
  by (simp add: skip_ws_def length_dropWhile_le)

lemma add_char_Some: "add_char c r = Some (str, rest) \<Longrightarrow> \<exists>str'. r = Some (str', rest)"
  by (auto simp: add_char_def split: option.splits)

lemma scanstring_consumes: "scanstring cs = Some (str, rest) \<Longrightarrow> length rest < length cs"
proof (induction cs arbitrary: str rule: scanstring.induct)
  case 1
  then show ?case by simp
next
  case (2 c cs)
  then show ?case
    by (auto split: if_splits option.splits list.splits dest!: add_char_Some; force)
qed

lemma match_int_consumes: "match_int s = Some (i, r) \<Longrightarrow> length r < length s"
  by (auto simp: match_int_def Let_def split: list.splits if_splits
           intro: le_less_trans[OF length_dropWhile_le])

lemma match_frac_length: "match_frac s = (f, r) \<Longrightarrow> length r \<le> length s"
  by (auto simp: match_frac_def split: list.splits if_splits
           intro: le_trans[OF length_dropWhile_le])

lemma match_exp_length: "match_exp s = (e, r) \<Longrightarrow> length r \<le> length s"
  by (auto simp: match_exp_def Let_def split: list.splits if_splits
           intro: le_trans[OF length_dropWhile_le])

lemma match_number_consumes: "match_number s = Some (lexeme, r) \<Longrightarrow> length r < length s"
proof -
  assume a: "match_number s = Some (lexeme, r)"
  then obtain i r0 where i: "match_int s = Some (i, r0)"
    by (auto simp: match_number_def split: option.splits)
  obtain f r1 where f: "match_frac r0 = (f, r1)" by (cases "match_frac r0")
  obtain e r2 where e: "match_exp r1 = (e, r2)" by (cases "match_exp r1")
  from a i f e have "r = r2" by (simp add: match_number_def)
  with match_int_consumes[OF i] match_frac_length[OF f] match_exp_length[OF e]
  show ?thesis by simp
qed

lemma skip_ws_Cons: "skip_ws s = d # ds \<Longrightarrow> length ds < length s"
  using skip_ws_length[of s] by simp

lemma skip_ws_less: "length r < length (skip_ws s) \<Longrightarrow> length r < length s"
  using skip_ws_length[of s] by simp

lemma scanners_consume:
  "(\<forall>lv s v r. scan_once L n lv s = Parsed v r \<longrightarrow> length r < length s) \<and>
   (\<forall>lv s vs v r. json_array L n lv s vs = Parsed v r \<longrightarrow> length r < length s) \<and>
   (\<forall>lv s ps v r. json_object L n lv s ps = Parsed v r \<longrightarrow> length r < length s)"
proof (induction n)
  case 0
  show ?case by simp
next
  case (Suc n)
  then have so: "\<And>lv s v r. scan_once L n lv s = Parsed v r \<Longrightarrow> length r < length s"
    and ja: "\<And>lv s vs v r. json_array L n lv s vs = Parsed v r \<Longrightarrow> length r < length s"
    and jo: "\<And>lv s ps v r. json_object L n lv s ps = Parsed v r \<Longrightarrow> length r < length s"
    by blast+
  have 1: "length r < length s" if "scan_once L (Suc n) lv s = Parsed v r" for lv s v r
    using that
    by (auto split: list.splits if_splits option.splits
             dest!: scanstring_consumes match_number_consumes skip_ws_Cons ja jo)
  have 2: "length r < length s" if "json_array L (Suc n) lv s vs = Parsed v r" for lv s vs v r
    using that
    by (auto split: list.splits if_splits parsed.splits
             dest!: so skip_ws_Cons ja skip_ws_less)
  have 3: "length r < length s" if "json_object L (Suc n) lv s ps = Parsed v r" for lv s ps v r
    using that
    by (auto split: list.splits if_splits parsed.splits option.splits
             dest!: so skip_ws_Cons jo scanstring_consumes skip_ws_less)
  from 1 2 3 show ?case by blast
qed

lemma scan_once_step:
  assumes ja: "\<And>lv s vs. 2 * length s + 2 \<le> n \<Longrightarrow> json_array L n lv s vs \<noteq> Exhausted"
    and jo: "\<And>lv s ps. 2 * length s + 2 \<le> n \<Longrightarrow> json_object L n lv s ps \<noteq> Exhausted"
    and b: "2 * length s + 1 \<le> Suc n"
  shows "scan_once L (Suc n) lv s \<noteq> Exhausted"
proof
  assume e: "scan_once L (Suc n) lv s = Exhausted"
  then obtain c cs where s: "s = c # cs" by (cases s) auto
  from e s obtain t where t: "skip_ws cs = t"
    and x: "json_object L n (Suc lv) t [] = Exhausted \<or> json_array L n (Suc lv) t [] = Exhausted"
    by (auto split: list.splits if_splits option.splits prod.splits)
  have "2 * length t + 2 \<le> n" using skip_ws_length[of cs] t b s by auto
  with ja jo x show False by blast
qed

lemma json_array_step:
  assumes so: "\<And>lv s. 2 * length s + 1 \<le> n \<Longrightarrow> scan_once L n lv s \<noteq> Exhausted"
    and ja: "\<And>lv s vs. 2 * length s + 2 \<le> n \<Longrightarrow> json_array L n lv s vs \<noteq> Exhausted"
    and b: "2 * length s + 2 \<le> Suc n"
  shows "json_array L (Suc n) lv s vs \<noteq> Exhausted"
proof (cases "scan_once L n lv s")
  case (Parsed v rest)
  have lr: "length rest < length s"
    using scanners_consume[of L n] Parsed by blast
  show ?thesis
  proof (cases "skip_ws rest")
    case Nil
    then show ?thesis using Parsed by simp
  next
    case (Cons d ds)
    have "length ds < length rest" using skip_ws_Cons[OF Cons] .
    moreover have "length (skip_ws ds) \<le> length ds" by (rule skip_ws_length)
    ultimately have "2 * length (skip_ws ds) + 2 \<le> n" using lr b by linarith
    then have "json_array L n lv (skip_ws ds) (vs @ [v]) \<noteq> Exhausted" by (rule ja)
    then show ?thesis using Parsed Cons by simp
  qed
next
  case Invalid
  then show ?thesis by simp
next
  case (Raised e)
  then show ?thesis by simp
next
  case Exhausted
  moreover have "scan_once L n lv s \<noteq> Exhausted" using b by (intro so) simp
  ultimately show ?thesis by simp
qed

lemma json_object_step:
  assumes so: "\<And>lv s. 2 * length s + 1 \<le> n \<Longrightarrow> scan_once L n lv s \<noteq> Exhausted"
    and jo: "\<And>lv s ps. 2 * length s + 2 \<le> n \<Longrightarrow> json_object L n lv s ps \<noteq> Exhausted"
    and b: "2 * length s + 2 \<le> Suc n"
  shows "json_object L (Suc n) lv s ps \<noteq> Exhausted"
proof (cases s)
  case Nil
  then show ?thesis by simp
next
  case s: (Cons q cs)
  show ?thesis
  proof (cases "scanstring cs")
    case None
    then show ?thesis using s by simp
  next
    case (Some kr)
    obtain key rest where kr: "kr = (key, rest)" by (cases kr)
    have l1: "length rest < length cs" using scanstring_consumes Some kr by blast
    show ?thesis
    proof (cases "skip_ws rest")
      case Nil
      then show ?thesis using s Some kr by simp
    next
      case c: (Cons colon r1)
      have l2: "length r1 < length rest" using skip_ws_Cons[OF c] .
      have l3: "length (skip_ws r1) \<le> length r1" by (rule skip_ws_length)
      show ?thesis
      proof (cases "scan_once L n lv (skip_ws r1)")
        case (Parsed v r2)
        have l4: "length r2 < length (skip_ws r1)"
          using scanners_consume[of L n] Parsed by blast
        show ?thesis
        proof (cases "skip_ws r2")
          case Nil
          then show ?thesis using s Some kr c Parsed by simp
        next
          case d: (Cons d ds)
          have l5: "length ds < length r2" using skip_ws_Cons[OF d] .
          have l6: "length (skip_ws ds) \<le> length ds" by (rule skip_ws_length)
          have "json_object L n lv (skip_ws ds) (ps @ [(key, v)]) \<noteq> Exhausted"
            using l1 l2 l3 l4 l5 l6 b s by (intro jo) simp
          then show ?thesis using s Some kr c Parsed d by simp
        qed
      next
        case Invalid
        then show ?thesis using s Some kr c by simp
      next
        case (Raised e)
        then show ?thesis using s Some kr c by simp
      next
        case Exhausted
        moreover have "scan_once L n lv (skip_ws r1) \<noteq> Exhausted"
          using l1 l2 l3 b s by (intro so) simp
        ultimately show ?thesis by simp
      qed
    qed
  qed
qed

lemma scanners_not_exhausted:
  "(\<forall>lv s. 2 * length s + 1 \<le> n \<longrightarrow> scan_once L n lv s \<noteq> Exhausted) \<and>
   (\<forall>lv s vs. 2 * length s + 2 \<le> n \<longrightarrow> json_array L n lv s vs \<noteq> Exhausted) \<and>
   (\<forall>lv s ps. 2 * length s + 2 \<le> n \<longrightarrow> json_object L n lv s ps \<noteq> Exhausted)"
proof (induction n)
  case 0
  show ?case by simp
next
  case (Suc n)
  note so = Suc.IH[THEN conjunct1, rule_format]
  note ja = Suc.IH[THEN conjunct2, THEN conjunct1, rule_format]
  note jo = Suc.IH[THEN conjunct2, THEN conjunct2, rule_format]
  show ?case
  proof (intro conjI allI impI)
    fix lv and s :: pystr
    assume b: "2 * length s + 1 \<le> Suc n"
    show "scan_once L (Suc n) lv s \<noteq> Exhausted"
      by (rule scan_once_step[OF _ _ b]; erule ja jo)
  next
    fix lv and s :: pystr and vs
    assume b: "2 * length s + 2 \<le> Suc n"
    show "json_array L (Suc n) lv s vs \<noteq> Exhausted"
      by (rule json_array_step[OF _ _ b]; erule so ja)
  next
    fix lv and s :: pystr and ps
    assume b: "2 * length s + 2 \<le> Suc n"
    show "json_object L (Suc n) lv s ps \<noteq> Exhausted"
      by (rule json_object_step[OF _ _ b]; erule so jo)
  qed
qed

lemma json_loads_not_exhausted:
  "scan_once L (2 * length s + 1) lv (skip_ws s) \<noteq> Exhausted"
proof -
  have "2 * length (skip_ws s) + 1 \<le> 2 * length s + 1" using skip_ws_length[of s] by simp
  then show ?thesis
    by (rule scanners_not_exhausted[THEN conjunct1, rule_format])
qed

text \<open>The only exceptions of the scanners besides \<open>JSONDecodeError\<close>.\<close>

lemma scanners_raise:
  "(\<forall>lv s e. scan_once L n lv s = Raised e \<longrightarrow> e = ValueError \<or> e = RecursionError) \<and>
   (\<forall>lv s vs e. json_array L n lv s vs = Raised e \<longrightarrow> e = ValueError \<or> e = RecursionError) \<and>
   (\<forall>lv s ps e. json_object L n lv s ps = Raised e \<longrightarrow> e = ValueError \<or> e = RecursionError)"
proof (induction n)
  case 0
  show ?case by simp
next
  case (Suc n)
  note so = Suc.IH[THEN conjunct1, rule_format]
  note ja = Suc.IH[THEN conjunct2, THEN conjunct1, rule_format]
  note jo = Suc.IH[THEN conjunct2, THEN conjunct2, rule_format]
  have 1: "e = ValueError \<or> e = RecursionError" if "scan_once L (Suc n) lv s = Raised e" for lv s e
    using that
    by (auto split: list.splits if_splits option.splits prod.splits dest: ja jo)
  have 2: "e = ValueError \<or> e = RecursionError"
    if "json_array L (Suc n) lv s vs = Raised e" for lv s vs e
    using that
    by (auto split: list.splits if_splits parsed.splits dest: so ja)
  have 3: "e = ValueError \<or> e = RecursionError"
    if "json_object L (Suc n) lv s ps = Raised e" for lv s ps e
    using that
    by (auto split: list.splits if_splits parsed.splits option.splits dest: so jo)
  show ?case
  proof (intro conjI allI impI)
    fix lv s e
    assume "scan_once L (Suc n) lv s = Raised e"
    then show "e = ValueError \<or> e = RecursionError" by (rule 1)
  next
    fix lv s vs e
    assume "json_array L (Suc n) lv s vs = Raised e"
    then show "e = ValueError \<or> e = RecursionError" by (rule 2)
  next
    fix lv s ps e
    assume "json_object L (Suc n) lv s ps = Raised e"
    then show "e = ValueError \<or> e = RecursionError" by (rule 3)
  qed
qed

lemma json_loads_error:
  assumes "json_loads L s = Inl e"
  shows "e = JSONDecodeError \<or> e = ValueError \<or> e = RecursionError"
proof (cases "scan_once L (2 * length s + 1) 0 (skip_ws s)")
  case (Parsed v rest)
  then show ?thesis using assms by (simp add: json_loads_def split: if_splits)
next
  case Invalid
  then show ?thesis using assms by (simp add: json_loads_def)
next
  case (Raised e')
  then have "e = e'" using assms by (simp add: json_loads_def)
  then show ?thesis using Raised scanners_raise[THEN conjunct1, rule_format] by blast
next
  case Exhausted
  then show ?thesis using json_loads_not_exhausted[of L s 0] by simp
qed

lemma json_array_result: "json_array L n lv s vs = Parsed v r \<Longrightarrow> \<exists>xs. v = JArray xs"
proof (induction n arbitrary: lv s vs)
  case 0
  then show ?case by simp
next
  case (Suc n)
  then show ?case
    by (auto split: parsed.splits list.splits if_splits)
qed

lemma json_search_bracket: "json_search response = Some region \<Longrightarrow> \<exists>cs. region = 91 # cs"
proof -
  assume a: "json_search response = Some region"
  then obtain b after where d: "dropWhile (\<lambda>c. c \<noteq> 91) response = b # after"
    and r: "\<exists>rs. region = b # rs"
    by (auto simp: json_search_def split: list.splits)
  from d have "b = 91" using hd_dropWhile[of "\<lambda>c. c \<noteq> 91" response] by simp
  with r show ?thesis by simp
qed

lemma scan_once_bracket: "scan_once L n lv (91 # cs) = Parsed v r \<Longrightarrow> \<exists>xs. v = JArray xs"
  by (cases n) (auto split: list.splits if_splits dest: json_array_result)

lemma json_loads_bracket: "json_loads L (91 # cs) = Inr v \<Longrightarrow> \<exists>xs. v = JArray xs"
proof -
  assume a: "json_loads L (91 # cs) = Inr v"
  have sk: "skip_ws (91 # cs) = 91 # cs" by (simp add: skip_ws_def json_ws_def)
  from a obtain rest where "scan_once L (2 * length (91 # cs) + 1) 0 (91 # cs) = Parsed v rest"
    unfolding json_loads_def sk
    by (cases "scan_once L (2 * length (91 # cs) + 1) 0 (91 # cs)")
       (auto simp del: scan_once.simps split: if_splits)
  then show ?thesis by (rule scan_once_bracket)
qed

section \<open>Properties of the two tiers\<close>

lemma value_strip_error: "value_strip v = Inl e \<Longrightarrow> e = AttributeError"
  by (cases v) auto

lemma cleaned_item_error: "cleaned_item d = Inl e \<Longrightarrow> e = AttributeError"
  by (auto simp: cleaned_item_def split: sum.splits dest: value_strip_error)

lemma clean_loop_error: "clean_loop xs acc = Inl e \<Longrightarrow> e = AttributeError"
  by (induction xs acc rule: clean_loop.induct)
     (auto split: if_splits sum.splits dest: cleaned_item_error)

lemma parse_body_error:
  assumes "parse_body L response = Inl e"
  shows "e = JSONDecodeError \<or> e = ValueError \<or> e = RecursionError \<or> e = AttributeError"
proof -
  from assms obtain region where s: "json_search response = Some region"
    by (auto simp: parse_body_def split: option.splits)
  then obtain cs where r: "region = 91 # cs" using json_search_bracket by blast
  show ?thesis
  proof (cases "json_loads L region")
    case (Inl e')
    then have "e = e'" using assms s by (simp add: parse_body_def)
    then show ?thesis using json_loads_error[OF Inl] by blast
  next
    case (Inr v)
    then obtain xs where "v = JArray xs" using json_loads_bracket r by blast
    with Inr assms s have "clean_loop xs [] = Inl e" by (simp add: parse_body_def)
    then show ?thesis using clean_loop_error by blast
  qed
qed

lemma value_strip_strip: "value_strip v = Inr s \<Longrightarrow> strip s = s"
  by (cases v) (auto simp: strip_strip)

lemma cleaned_item_description: "cleaned_item d = Inr c \<Longrightarrow> strip (description c) = description c"
  by (auto simp: cleaned_item_def split: sum.splits dest: value_strip_strip)

lemma clean_loop_descriptions:
  "clean_loop xs acc = Inr res \<Longrightarrow> \<forall>x \<in> set acc. strip (description x) \<noteq> [] \<Longrightarrow>
   \<forall>x \<in> set res. strip (description x) \<noteq> []"
proof (induction xs acc rule: clean_loop.induct)
  case (1 cleaned_items)
  then show ?case by simp
next
  case (2 item items cleaned_items)
  then show ?case
    by (auto split: if_splits sum.splits simp: cleaned_item_description)
qed simp_all

lemma emitted_description: "emitted l \<Longrightarrow> strip (bullet_stripped l) \<noteq> []"
  by (simp add: emitted_def bullet_stripped_def Let_def strip_strip)

lemma parse_text_descriptions:
  "\<forall>x \<in> set (parse_text_action_items text). strip (description x) \<noteq> []"
proof
  fix x
  assume "x \<in> set (parse_text_action_items text)"
  then obtain l where "emitted l" and "x = text_item (bullet_stripped l)"
    unfolding parse_text_filter by (auto dest!: in_set_takeD)
  then show "strip (description x) \<noteq> []"
    using emitted_description by (simp add: text_item_def)
qed

lemma has_key_field: "has_key d k \<longleftrightarrow> field d k \<noteq> None"
  by (simp add: has_key_def field_def map_of_eq_None_iff)

lemma default_texts:
  "strip (py ''Unassigned'') = py ''Unassigned''"
  "strip (py ''No due date specified'') = py ''No due date specified''"
  "strip (py ''Medium'') = py ''Medium''"
  by (simp_all add: py_def strip_def isspace_def)

lemma value_strip_field:
  "missing_or_text d k \<Longrightarrow> strip dflt = dflt \<Longrightarrow>
   value_strip (dict_get d k (JString dflt)) = Inr (trimmed_or d k dflt)"
  by (auto simp: missing_or_text_def dict_get_def trimmed_or_def field_def
           split: option.splits json.splits)

lemma described_cleaned:
  assumes "described d"
  shows "cleaned_item d = Inr (normalized d)"
    and "has_key d (py ''description'')"
    and "description (normalized d) \<noteq> []"
proof -
  from assms obtain s where s: "field d (py ''description'') = Some (JString s)" and ne: "strip s \<noteq> []"
    by (auto simp: described_def split: option.splits json.splits)
  from assms have m: "missing_or_text d (py ''assignee'')" "missing_or_text d (py ''due_date'')"
    "missing_or_text d (py ''priority'')"
    by (simp_all add: described_def)
  have d: "value_strip (dict_get d (py ''description'') (JString [])) = Inr (trimmed_or d (py ''description'') [])"
    using s by (simp add: dict_get_def trimmed_or_def field_def)
  show "cleaned_item d = Inr (normalized d)"
    unfolding cleaned_item_def normalized_def
    by (simp add: d value_strip_field[OF m(1) default_texts(1)]
          value_strip_field[OF m(2) default_texts(2)] value_strip_field[OF m(3) default_texts(3)])
  show "has_key d (py ''description'')" using s by (simp add: has_key_field)
  show "description (normalized d) \<noteq> []" using s ne by (simp add: normalized_def trimmed_or_def)
qed

lemma clean_loop_described:
  "\<forall>d \<in> set ds. described d \<Longrightarrow>
   clean_loop (map JObject ds) acc = Inr (acc @ map normalized ds)"
proof (induction ds arbitrary: acc)
  case Nil
  then show ?case by simp
next
  case (Cons d ds)
  then have d: "described d" and rest: "\<forall>d \<in> set ds. described d" by simp_all
  show ?case
    using described_cleaned[OF d] Cons.IH[OF rest] by simp
qed

lemma split_lines_nonempty: "split_lines t \<noteq> []"
  by (induction t) (auto split: list.splits)

lemma split_lines_no_newline: "l \<in> set (split_lines t) \<Longrightarrow> 10 \<notin> set l"
proof (induction t arbitrary: l)
  case Nil
  then show ?case by simp
next
  case (Cons c cs)
  then show ?case
    by (cases "split_lines cs") (auto split: if_splits)
qed

lemma split_lines_line: "10 \<notin> set x \<Longrightarrow> split_lines (x @ 10 # t) = x # split_lines t"
  by (induction x) auto

lemma split_lines_single: "10 \<notin> set x \<Longrightarrow> split_lines x = [x]"
  by (induction x) auto

lemma split_join_lines:
  "xs \<noteq> [] \<Longrightarrow> \<forall>x \<in> set xs. 10 \<notin> set x \<Longrightarrow> split_lines (join_lines xs) = xs"
proof (induction xs rule: join_lines.induct)
  case 1
  then show ?case by simp
next
  case (2 x)
  then show ?case by (simp add: split_lines_single)
next
  case (3 x y ys)
  then show ?case by (simp add: split_lines_line)
qed

lemma set_strip: "set (strip s) \<subseteq> set s"
proof -
  have "set (strip s) \<subseteq> set (dropWhile isspace s)"
    unfolding strip_def using set_dropWhileD by fastforce
  also have "\<dots> \<subseteq> set s" using set_dropWhileD by fastforce
  finally show ?thesis .
qed

lemma set_bullet_stripped: "set (bullet_stripped l) \<subseteq> set l"
proof -
  let ?t = "strip l"
  have "set (bullet_stripped l) \<subseteq> set ?t"
    unfolding bullet_stripped_def Let_def
    using set_strip[of "drop 1 ?t"] set_strip[of ?t] set_drop_subset[of 1 ?t]
    by (auto simp del: One_nat_def)
  then show ?thesis using set_strip[of l] by blast
qed

lemma text_loop_length: "length (text_loop ls []) \<le> length ls"
  by (simp add: text_loop_filter)

lemma rerun_length:
  "length (parse_text_action_items (render (parse_text_action_items text)))
     \<le> length (parse_text_action_items text)"
proof (cases "parse_text_action_items text = []")
  case True
  have "parse_text_action_items [] = []"
    by (simp add: parse_text_action_items_def strip_def)
  then show ?thesis using True by (simp add: render_def)
next
  case False
  let ?out = "parse_text_action_items text"
  have nl: "\<forall>x \<in> set (map description ?out). 10 \<notin> set x"
  proof
    fix x
    assume "x \<in> set (map description ?out)"
    then obtain l where "l \<in> set (split_lines text)" and "x = bullet_stripped l"
      unfolding parse_text_filter by (auto simp: text_item_def dest!: in_set_takeD)
    then show "10 \<notin> set x"
      using split_lines_no_newline set_bullet_stripped by blast
  qed
  have "split_lines (render ?out) = map description ?out"
    unfolding render_def using False nl by (intro split_join_lines) simp_all
  then have "length (text_loop (split_lines (render ?out)) []) \<le> length ?out"
    using text_loop_length[of "map description ?out"] by simp
  then show ?thesis
    unfolding parse_text_action_items_def[of "render ?out"] by simp
qed

lemma parse_action_items_returns: "\<exists>items. parse_action_items L response = Inr items"
  by (auto simp: parse_action_items_def split: sum.splits py_error.splits)

lemma json_search_region:
  assumes "91 \<notin> set before" and "93 \<notin> set after"
  shows "json_search (before @ 91 # middle @ 93 # after) = Some (91 # middle @ [93])"
proof -
  have 1: "dropWhile (\<lambda>c. c \<noteq> 91) (before @ 91 # middle @ 93 # after) = 91 # middle @ 93 # after"
    using assms(1) by (auto simp: dropWhile_append3)
  have 2: "dropWhile (\<lambda>c. c \<noteq> 93) (rev (middle @ 93 # after)) = 93 # rev middle"
    using assms(2) by (auto simp: dropWhile_append3)
  show ?thesis unfolding json_search_def 1 by (simp only: list.case 2) simp
qed

section \<open>Properties of the adapters and of the handler\<close>

lemma call_ollama_world:
  "snd (call_ollama E prompt system_prompt w) =
     w\<lparr>posted := posted w @
        [\<lparr>req_model = llm_model E, req_prompt = prompt, req_system = system_prompt\<rparr>]\<rparr>"
  by (simp add: call_ollama_def Let_def split: sum.splits)

lemma call_ollama_result:
  "fst (call_ollama E prompt system_prompt w) =
     (case ollama_result (ollama E (length (posted w))
             \<lparr>req_model = llm_model E, req_prompt = prompt, req_system = system_prompt\<rparr>) of
        Inl msg \<Rightarrow> Inl (py ''LLM service unavailable: '' @ msg)
      | Inr text \<Rightarrow> Inr text)"
  by (simp add: call_ollama_def Let_def split: sum.splits)

lemma generate_summary_returns:
  "\<exists>s. generate_summary E t w =
     (Inr s, w\<lparr>posted := posted w @
        [\<lparr>req_model = llm_model E, req_prompt = summary_prompt t,
          req_system = summary_system_prompt\<rparr>]\<rparr>)"
proof -
  obtain r w' where c: "call_ollama E (summary_prompt t) summary_system_prompt w = (r, w')"
    by (cases "call_ollama E (summary_prompt t) summary_system_prompt w")
  then have "w' = snd (call_ollama E (summary_prompt t) summary_system_prompt w)" by simp
  then have w: "w' = w\<lparr>posted := posted w @
        [\<lparr>req_model = llm_model E, req_prompt = summary_prompt t,
          req_system = summary_system_prompt\<rparr>]\<rparr>"
    by (simp only: call_ollama_world)
  show ?thesis using c w by (cases r) (simp_all add: generate_summary_def)
qed

lemma extract_action_items_returns:
  "\<exists>xs. extract_action_items E t w =
     (Inr xs, w\<lparr>posted := posted w @
        [\<lparr>req_model = llm_model E, req_prompt = extraction_prompt t,
          req_system = extraction_system_prompt\<rparr>]\<rparr>)"
proof -
  obtain r w' where c: "call_ollama E (extraction_prompt t) extraction_system_prompt w = (r, w')"
    by (cases "call_ollama E (extraction_prompt t) extraction_system_prompt w")
  then have "w' = snd (call_ollama E (extraction_prompt t) extraction_system_prompt w)" by simp
  then have w: "w' = w\<lparr>posted := posted w @
        [\<lparr>req_model = llm_model E, req_prompt = extraction_prompt t,
          req_system = extraction_system_prompt\<rparr>]\<rparr>"
    by (simp only: call_ollama_world)
  show ?thesis using c w
    by (cases r) (auto simp: extract_action_items_def split: sum.splits)
qed

lemma save_items_ok:
  "save_items E mid k xs w = (Inr u, w') \<Longrightarrow>
     (\<forall>j < length xs. item_insert_error E (k + j) = None) \<and>
     uploads w' = uploads w \<and> meeting_rows w' = meeting_rows w \<and> posted w' = posted w \<and>
     (\<exists>rows. item_rows w' = item_rows w @ rows \<and> length rows = length xs)"
proof (induction xs arbitrary: k w)
  case Nil
  then show ?case by simp
next
  case (Cons x xs)
  from Cons.prems obtain rowid w1 where a: "action_item_save E mid k x w = (Inr rowid, w1)"
    and b: "save_items E mid (Suc k) xs w1 = (Inr u, w')"
    by (auto split: prod.splits sum.splits)
  from a have e: "item_insert_error E k = None"
    and w1: "uploads w1 = uploads w" "meeting_rows w1 = meeting_rows w" "posted w1 = posted w"
      "\<exists>row. item_rows w1 = item_rows w @ [row]"
    by (auto simp: action_item_save_def Let_def split: option.splits)
  from w1(4) obtain row where row: "item_rows w1 = item_rows w @ [row]" by blast
  from Cons.IH[OF b] obtain rows where
    ih: "\<forall>j < length xs. item_insert_error E (Suc k + j) = None"
      "uploads w' = uploads w1" "meeting_rows w' = meeting_rows w1" "posted w' = posted w1"
      "item_rows w' = item_rows w1 @ rows" "length rows = length xs"
    by blast
  have "\<forall>j < length (x # xs). item_insert_error E (k + j) = None"
  proof (intro allI impI)
    fix j assume "j < length (x # xs)"
    then show "item_insert_error E (k + j) = None"
      using e ih(1) by (cases j) auto
  qed
  moreover have "item_rows w' = item_rows w @ (row # rows) \<and> length (row # rows) = length (x # xs)"
    using ih(5,6) row by simp
  ultimately show ?case using ih(2,3,4) w1(1,2,3) by metis
qed

lemma save_items_error:
  "save_items E mid k xs w = (Inl e, w') \<Longrightarrow>
     \<exists>j rows. j < length xs \<and> item_insert_error E (k + j) = Some e \<and>
       uploads w' = uploads w \<and> meeting_rows w' = meeting_rows w \<and> posted w' = posted w \<and>
       item_rows w' = item_rows w @ rows \<and> length rows = j"
proof (induction xs arbitrary: k w)
  case Nil
  then show ?case by simp
next
  case (Cons x xs)
  show ?case
  proof (cases "item_insert_error E k")
    case (Some msg)
    then have "e = msg" "w' = w" using Cons.prems by (simp_all add: action_item_save_def)
    then have "0 < length (x # xs) \<and> item_insert_error E (k + 0) = Some e \<and>
       uploads w' = uploads w \<and> meeting_rows w' = meeting_rows w \<and> posted w' = posted w \<and>
       item_rows w' = item_rows w @ [] \<and> length ([] :: item_row list) = 0"
      using Some by simp
    then show ?thesis by blast
  next
    case None
    then obtain rowid w1 where a: "action_item_save E mid k x w = (Inr rowid, w1)"
      by (simp add: action_item_save_def Let_def)
    with Cons.prems have b: "save_items E mid (Suc k) xs w1 = (Inl e, w')" by simp
    from a None have w1: "uploads w1 = uploads w" "meeting_rows w1 = meeting_rows w"
      "posted w1 = posted w" "\<exists>row. item_rows w1 = item_rows w @ [row]"
      by (auto simp: action_item_save_def Let_def)
    from w1(4) obtain row where row: "item_rows w1 = item_rows w @ [row]" by blast
    from Cons.IH[OF b] obtain j rows where
      ih: "j < length xs" "item_insert_error E (Suc k + j) = Some e"
        "uploads w' = uploads w1" "meeting_rows w' = meeting_rows w1" "posted w' = posted w1"
        "item_rows w' = item_rows w1 @ rows" "length rows = j"
      by blast
    have "Suc j < length (x # xs) \<and> item_insert_error E (k + Suc j) = Some e \<and>
       uploads w' = uploads w \<and> meeting_rows w' = meeting_rows w \<and> posted w' = posted w \<and>
       item_rows w' = item_rows w @ (row # rows) \<and> length (row # rows) = Suc j"
      using ih w1(1,2,3) row by simp
    then show ?thesis by blast
  qed
qed

text \<open>\<open>process_saved\<close> once the transcription and the two backend calls are known.\<close>

lemma process_saved_unfold:
  assumes "transcribe_audio E p = Inr t"
    and "generate_summary E t w = (Inr s, w1)"
    and "extract_action_items E t w1 = (Inr xs, w2)"
  shows "process_saved E req p w =
       (case meeting_save E (form_get req (py ''meeting_title'') (py ''Untitled Meeting''))
               (form_get req (py ''meeting_date'') (today E)) (form_get req (py ''attendees'') [])
               t s w2 of
          (Inl e, w3) \<Rightarrow> (Error 500 e, w3)
        | (Inr meeting_id, w3) \<Rightarrow>
            (case save_items E meeting_id 0 xs w3 of
               (Inl e, w4) \<Rightarrow> (Error 500 e, w4)
             | (Inr u, w4) \<Rightarrow>
                 (case os_remove p w4 of
                    (Inl e, w5) \<Rightarrow> (Error 500 e, w5)
                  | (Inr u, w5) \<Rightarrow>
                      (Success \<lparr>r_success = True, r_meeting_id = meeting_id, r_summary = s,
                                 r_action_items = xs,
                                 r_transcription = shown_transcription t\<rparr>, w5))))"
  unfolding process_saved_def Let_def by (simp only: assms sum.case prod.case)

lemma process_saved_outcome:
  assumes present: "uploads w p = Some data"
    and run: "process_saved E req p w = (r, w')"
  shows "(\<exists>e. transcribe_audio E p = Inl e \<and> r = Error 500 e \<and> w' = w) \<or>
         (\<exists>t e. transcribe_audio E p = Inr t \<and> meeting_insert_error E = Some e \<and>
            r = Error 500 e \<and> uploads w' = uploads w \<and>
            meeting_rows w' = meeting_rows w \<and> item_rows w' = item_rows w) \<or>
         (\<exists>t e k row rows. transcribe_audio E p = Inr t \<and> meeting_insert_error E = None \<and>
            item_insert_error E k = Some e \<and>
            r = Error 500 e \<and> uploads w' = uploads w \<and>
            meeting_rows w' = meeting_rows w @ [row] \<and>
            item_rows w' = item_rows w @ rows \<and> length rows = k) \<or>
         (\<exists>t b row rows. transcribe_audio E p = Inr t \<and> meeting_insert_error E = None \<and>
            r = Success b \<and> r_transcription b = shown_transcription t \<and>
            length rows = length (r_action_items b) \<and>
            uploads w' = (uploads w)(p := None) \<and>
            meeting_rows w' = meeting_rows w @ [row] \<and>
            item_rows w' = item_rows w @ rows)"
proof (cases "transcribe_audio E p")
  case (Inl e)
  then have "r = Error 500 e \<and> w' = w" using run by (simp add: process_saved_def Let_def)
  with Inl show ?thesis by blast
next
  case (Inr t)
  let ?w1 = "w\<lparr>posted := posted w @
        [\<lparr>req_model = llm_model E, req_prompt = summary_prompt t,
          req_system = summary_system_prompt\<rparr>]\<rparr>"
  let ?w2 = "?w1\<lparr>posted := posted ?w1 @
        [\<lparr>req_model = llm_model E, req_prompt = extraction_prompt t,
          req_system = extraction_system_prompt\<rparr>]\<rparr>"
  obtain s where gs: "generate_summary E t w = (Inr s, ?w1)"
    using generate_summary_returns by blast
  obtain xs where ex: "extract_action_items E t ?w1 = (Inr xs, ?w2)"
    using extract_action_items_returns by blast
  define w2 where "w2 = ?w2"
  have w2: "uploads w2 = uploads w" "meeting_rows w2 = meeting_rows w" "item_rows w2 = item_rows w"
    by (simp_all add: w2_def)
  note ps = process_saved_unfold[OF Inr gs ex, of req, folded w2_def]
  show ?thesis
  proof (cases "meeting_insert_error E")
    case (Some e)
    then have "r = Error 500 e \<and> w' = w2"
      using run ps by (simp add: meeting_save_def)
    with Inr Some w2 show ?thesis by auto
  next
    case None
    define mid where "mid = last_meeting_id w2 + 1"
    define row where "row = \<lparr>m_id = mid,
       m_title = form_get req (py ''meeting_title'') (py ''Untitled Meeting''),
       m_date = form_get req (py ''meeting_date'') (today E),
       m_attendees = form_get req (py ''attendees'') [],
       m_transcription = t, m_summary = s, m_created_at = now_iso E\<rparr>"
    define w3 where "w3 = w2\<lparr>meeting_rows := meeting_rows w2 @ [row], last_meeting_id := mid\<rparr>"
    have ms: "meeting_save E (form_get req (py ''meeting_title'') (py ''Untitled Meeting''))
               (form_get req (py ''meeting_date'') (today E)) (form_get req (py ''attendees'') [])
               t s w2 = (Inr mid, w3)"
      using None by (simp add: meeting_save_def Let_def mid_def row_def w3_def)
    have w3: "uploads w3 = uploads w" "meeting_rows w3 = meeting_rows w @ [row]"
      "item_rows w3 = item_rows w"
      using w2 by (simp_all add: w3_def)
    obtain res w4 where si: "save_items E mid 0 xs w3 = (res, w4)"
      by (cases "save_items E mid 0 xs w3")
    show ?thesis
    proof (cases res)
      case (Inl e)
      then have r: "r = Error 500 e \<and> w' = w4" using run ps ms si by simp
      from save_items_error[OF si[unfolded Inl]] obtain j rows where
        "item_insert_error E (0 + j) = Some e" "uploads w4 = uploads w3"
        "meeting_rows w4 = meeting_rows w3" "item_rows w4 = item_rows w3 @ rows" "length rows = j"
        by blast
      with r w3 \<open>transcribe_audio E p = Inr t\<close> None show ?thesis by auto
    next
      case (Inr u)
      from save_items_ok[OF si[unfolded Inr]] obtain rows where
        w4: "uploads w4 = uploads w3" "meeting_rows w4 = meeting_rows w3"
          "item_rows w4 = item_rows w3 @ rows" "length rows = length xs"
        by blast
      have "uploads w4 p = Some data" using w4(1) w3(1) present by simp
      then have rm: "os_remove p w4 = (Inr (), w4\<lparr>uploads := (uploads w4)(p := None)\<rparr>)"
        by (simp add: os_remove_def)
      have r: "r = Success \<lparr>r_success = True, r_meeting_id = mid, r_summary = s,
                 r_action_items = xs, r_transcription = shown_transcription t\<rparr> \<and>
               w' = w4\<lparr>uploads := (uploads w4)(p := None)\<rparr>"
        using run ps ms si Inr rm by simp
      with w4 w3 \<open>transcribe_audio E p = Inr t\<close> None show ?thesis by auto
    qed
  qed
qed

lemma process_audio_saved:
  assumes "files req (py ''audio_file'') = Some file" and "filename file \<noteq> []"
    and "save_error E (upload_path E file) = None"
  shows "process_audio E req w =
     process_saved E req (upload_path E file)
       (w\<lparr>uploads := (uploads w)(upload_path E file \<mapsto> content file)\<rparr>)"
  using assms by (simp add: process_audio_def file_save_def)

lemma process_audio_success:
  assumes "process_audio E req w = (Success b, w')"
  shows "\<exists>file. files req (py ''audio_file'') = Some file \<and> filename file \<noteq> [] \<and>
           save_error E (upload_path E file) = None"
  using assms
  by (auto simp: process_audio_def file_save_def split: option.splits if_splits)

text \<open>How a run of the handler ends once the file is saved.\<close>

lemma process_audio_outcome:
  assumes "files req (py ''audio_file'') = Some upl" and "filename upl \<noteq> []"
    and "save_error E (upload_path E upl) = None"
    and "process_audio E req w = (r, w')"
  shows "(case r of
            Success b \<Rightarrow> uploads w' (upload_path E upl) = None
          | Error code msg \<Rightarrow>
              code = 500 \<and> uploads w' (upload_path E upl) = Some (content upl)) \<and>
         ((\<exists>e. transcribe_audio E (upload_path E upl) = Inl e \<and> r = Error 500 e \<and>
              w' = w\<lparr>uploads := (uploads w)(upload_path E upl \<mapsto> content upl)\<rparr>) \<or>
          (\<exists>t e. transcribe_audio E (upload_path E upl) = Inr t \<and>
              meeting_insert_error E = Some e \<and> r = Error 500 e \<and>
              meeting_rows w' = meeting_rows w \<and> item_rows w' = item_rows w) \<or>
          (\<exists>t e k row rows. transcribe_audio E (upload_path E upl) = Inr t \<and>
              meeting_insert_error E = None \<and> item_insert_error E k = Some e \<and>
              r = Error 500 e \<and> meeting_rows w' = meeting_rows w @ [row] \<and>
              item_rows w' = item_rows w @ rows \<and> length rows = k) \<or>
          (\<exists>t b row rows. transcribe_audio E (upload_path E upl) = Inr t \<and>
              meeting_insert_error E = None \<and> r = Success b \<and>
              meeting_rows w' = meeting_rows w @ [row] \<and>
              item_rows w' = item_rows w @ rows \<and> length rows = length (r_action_items b)))"
proof -
  let ?p = "upload_path E upl"
  let ?w = "w\<lparr>uploads := (uploads w)(?p \<mapsto> content upl)\<rparr>"
  have run: "process_saved E req ?p ?w = (r, w')"
    using assms(4) process_audio_saved[OF assms(1,2,3)] by simp
  have present: "uploads ?w ?p = Some (content upl)" by simp
  have u: "uploads ?w = (uploads w)(?p \<mapsto> content upl)"
    and m: "meeting_rows ?w = meeting_rows w" and i: "item_rows ?w = item_rows w"
    by simp_all
  from process_saved_outcome[OF present run]
  consider
    (transcription) e where "transcribe_audio E ?p = Inl e" "r = Error 500 e" "w' = ?w"
  | (meeting) t e where "transcribe_audio E ?p = Inr t" "meeting_insert_error E = Some e"
      "r = Error 500 e" "uploads w' = uploads ?w" "meeting_rows w' = meeting_rows ?w"
      "item_rows w' = item_rows ?w"
  | (item) t e k row rows where "transcribe_audio E ?p = Inr t" "meeting_insert_error E = None"
      "item_insert_error E k = Some e" "r = Error 500 e" "uploads w' = uploads ?w"
      "meeting_rows w' = meeting_rows ?w @ [row]" "item_rows w' = item_rows ?w @ rows"
      "length rows = k"
  | (completed) t b row rows where "transcribe_audio E ?p = Inr t" "meeting_insert_error E = None"
      "r = Success b" "r_transcription b = shown_transcription t"
      "length rows = length (r_action_items b)" "uploads w' = (uploads ?w)(?p := None)"
      "meeting_rows w' = meeting_rows ?w @ [row]" "item_rows w' = item_rows ?w @ rows"
    by blast
  then show ?thesis
  proof cases
    case transcription
    then show ?thesis by simp
  next
    case meeting
    then show ?thesis unfolding u m i by simp
  next
    case item
    have "\<exists>t e k row rows. transcribe_audio E ?p = Inr t \<and>
              meeting_insert_error E = None \<and> item_insert_error E k = Some e \<and>
              r = Error 500 e \<and> meeting_rows w' = meeting_rows w @ [row] \<and>
              item_rows w' = item_rows w @ rows \<and> length rows = k"
      using item unfolding m i by blast
    moreover have "uploads w' ?p = Some (content upl)" using item(5) by simp
    ultimately show ?thesis using item(4) by simp
  next
    case completed
    have "\<exists>t b row rows. transcribe_audio E ?p = Inr t \<and>
              meeting_insert_error E = None \<and> r = Success b \<and>
              meeting_rows w' = meeting_rows w @ [row] \<and>
              item_rows w' = item_rows w @ rows \<and> length rows = length (r_action_items b)"
      using completed unfolding m i by blast
    moreover have "uploads w' ?p = None" using completed(6) by simp
    ultimately show ?thesis using completed(3) by simp
  qed
qed




section \<open>The limits of the interpreter in the decoder\<close>

text \<open>
  The two limits at work: brackets nested deeper than \<open>max_nesting\<close> raise
  \<open>RecursionError\<close>, an integer with more digits than \<open>max_str_digits\<close> raises
  \<open>ValueError\<close>; the extractor then returns the empty list.
\<close>

lemma scan_once_deep:
  "max_nesting L < lv + k \<Longrightarrow> 0 < k \<Longrightarrow>
   scan_once L (Suc (2 * k + n)) lv (replicate k 91 @ rest) = Raised RecursionError"
proof (induction k arbitrary: lv n)
  case 0
  then show ?case by simp
next
  case (Suc k)
  show ?case
  proof (cases "max_nesting L \<le> lv")
    case True
    then show ?thesis by simp
  next
    case False
    then have k: "0 < k" using Suc.prems by linarith
    then obtain k' where k': "k = Suc k'" by (cases k) auto
    have sk: "skip_ws (replicate k 91 @ rest) = 91 # replicate k' 91 @ rest"
      by (simp add: k' skip_ws_def json_ws_def)
    have "max_nesting L < Suc lv + k" using Suc.prems by simp
    from Suc.IH[OF this k, of n]
    have ih: "scan_once L (Suc (2 * k + n)) (Suc lv) (replicate k 91 @ rest) = Raised RecursionError" .
    have f: "Suc (2 * Suc k + n) = Suc (Suc (Suc (2 * k + n)))" by simp
    have "scan_once L (Suc (Suc (Suc (2 * k + n)))) lv (91 # replicate k 91 @ rest) =
            json_array L (Suc (Suc (2 * k + n))) (Suc lv) (91 # replicate k' 91 @ rest) []"
      using False by (simp only: scan_once.simps list.case sk if_False) simp
    also have "\<dots> = Raised RecursionError"
      using ih[unfolded k'] unfolding k'
      by (simp only: json_array.simps replicate.simps append_Cons parsed.case)
    finally show ?thesis unfolding f by simp
  qed
qed

lemma json_loads_deep:
  assumes "max_nesting L < k"
  shows "json_loads L (replicate k 91 @ rest) = Inl RecursionError"
proof -
  from assms obtain k' where k': "k = Suc k'" by (cases k) auto
  have sk: "skip_ws (replicate k 91 @ rest) = replicate k 91 @ rest"
    by (simp add: k' skip_ws_def json_ws_def)
  have f: "2 * length (replicate k 91 @ rest) + 1 = Suc (2 * k + 2 * length rest)" by simp
  have "scan_once L (Suc (2 * k + 2 * length rest)) 0 (replicate k 91 @ rest) = Raised RecursionError"
    using assms by (intro scan_once_deep) (simp_all add: k')
  then show ?thesis unfolding json_loads_def sk f by simp
qed

lemma deep_nesting_gives_empty_list:
  assumes "max_nesting L \<le> k" and "91 \<notin> set before"
  shows "parse_action_items L (before @ 91 # replicate k 91 @ replicate k 93 @ [93]) = Inr []"
proof -
  have "json_search (before @ 91 # (replicate k 91 @ replicate k 93) @ 93 # []) =
          Some (91 # (replicate k 91 @ replicate k 93) @ [93])"
    using assms(2) by (intro json_search_region) simp_all
  then have s: "json_search (before @ 91 # replicate k 91 @ replicate k 93 @ [93]) =
          Some (replicate (Suc k) 91 @ replicate k 93 @ [93])"
    by simp
  have "json_loads L (replicate (Suc k) 91 @ replicate k 93 @ [93]) = Inl RecursionError"
    using assms(1) by (intro json_loads_deep) simp
  then show ?thesis
    unfolding parse_action_items_def parse_body_def s by simp
qed

lemma scan_once_long_integer:
  assumes "0 < max_str_digits L" and "max_str_digits L < k"
  shows "scan_once L (Suc n) lv (replicate k 49 @ [93]) = Raised ValueError"
proof -
  from assms obtain k' where k': "k = Suc k'" by (cases k) auto
  have d: "is_digit 49" "\<not> is_digit 93" by (simp_all add: is_digit_def)
  have tw: "takeWhile is_digit (replicate k' 49 @ [93]) = replicate k' 49"
    using d by (simp add: takeWhile_tail)
  have dw: "dropWhile is_digit (replicate k' 49 @ [93]) = [93]"
    using d by (simp add: dropWhile_append)
  have mi: "match_int (replicate k 49 @ [93]) = Some (replicate k 49, [93])"
    by (simp add: match_int_def k' tw dw)
  have mn: "match_number (replicate k 49 @ [93]) = Some (replicate k 49, [93])"
    by (simp add: match_number_def mi match_frac_def match_exp_def)
  have long: "int_too_long L (replicate k 49)"
    using assms d by (simp add: int_too_long_def list_all_iff)
  have nk: "\<not> startswith (49 # cs) (py ''null'')" "\<not> startswith (49 # cs) (py ''true'')"
    "\<not> startswith (49 # cs) (py ''false'')" for cs
    by (simp_all add: startswith_def py_def)
  show ?thesis
    using mn long nk unfolding k' by simp
qed

lemma long_integer_gives_empty_list:
  assumes "0 < max_nesting L" and "0 < max_str_digits L" and "max_str_digits L < k"
    and "91 \<notin> set before"
  shows "parse_action_items L (before @ 91 # replicate k 49 @ [93]) = Inr []"
proof -
  from assms(3) obtain k' where k': "k = Suc k'" by (cases k) auto
  have "json_search (before @ 91 # replicate k 49 @ 93 # []) = Some (91 # replicate k 49 @ [93])"
    using assms(4) by (intro json_search_region) simp_all
  then have s: "json_search (before @ 91 # replicate k 49 @ [93]) = Some (91 # replicate k 49 @ [93])"
    by simp
  have sk: "skip_ws (91 # replicate k 49 @ [93]) = 91 # replicate k 49 @ [93]"
    "skip_ws (replicate k 49 @ [93]) = 49 # replicate k' 49 @ [93]"
    by (simp_all add: skip_ws_def json_ws_def k')
  have f: "2 * length (91 # replicate k 49 @ [93]) + 1 = Suc (Suc (Suc (2 * k + 2)))" by simp
  have v: "scan_once L (Suc (2 * k + 2)) (Suc 0) (replicate k 49 @ [93]) = Raised ValueError"
    using assms(2,3) by (rule scan_once_long_integer)
  have "scan_once L (Suc (Suc (Suc (2 * k + 2)))) 0 (91 # replicate k 49 @ [93]) =
          json_array L (Suc (Suc (2 * k + 2))) (Suc 0) (49 # replicate k' 49 @ [93]) []"
    using assms(1) by (simp only: scan_once.simps list.case sk) simp
  also have "\<dots> = Raised ValueError"
    using v unfolding k'
    by (simp only: json_array.simps replicate.simps append_Cons parsed.case)
  finally have "json_loads L (91 # replicate k 49 @ [93]) = Inl ValueError"
    unfolding json_loads_def sk f by simp
  then show ?thesis
    unfolding parse_action_items_def parse_body_def s by simp
qed

section \<open>Evaluating the model on concrete inputs\<close>

text \<open>
  The definitions the simplifier unfolds to run the model on a concrete input, and
  the scanners' recursive equations for a budget written as a numeral.
\<close>

lemmas ev = py_def strip_def isspace_def startswith_def lower_def lower_char_def strip_bullet_def
  text_item_def parse_text_action_items_def json_search_def parse_body_def parse_action_items_def
  emitted_def treated_as_action_item_def bullet_stripped_def fallback_runs_def render_def Let_def

lemmas scan_numeral =
  scan_once.simps(2)[of _ "pred_numeral k" for k, unfolded numeral_eq_Suc[symmetric]]
  json_array.simps(2)[of _ "pred_numeral k" for k, unfolded numeral_eq_Suc[symmetric]]
  json_object.simps(2)[of _ "pred_numeral k" for k, unfolded numeral_eq_Suc[symmetric]]

lemmas ev_json = scan_numeral json_loads_def skip_ws_def json_ws_def backslash_def add_char_def
  hex_digit_def is_digit_def match_int_def match_frac_def match_exp_def match_number_def
  has_key_def dict_get_def cleaned_item_def int_too_long_def default_limits_def

lemmas ev_handler = process_audio_def process_saved_def upload_path_def path_join_def
  file_save_def os_remove_def form_get_def transcribe_audio_def meeting_save_def
  action_item_save_def generate_summary_def extract_action_items_def call_ollama_def
  ollama_result_def format_summary_def shown_transcription_def no_attribute_def
  demo_request_def demo_upload_def empty_world_def demo_env_def

section \<open>The claims about the Response Extractor\<close>

text \<open>
  C1, as the code has it. Take an input whose region from the leftmost \<open>[\<close> to the
  rightmost \<open>]\<close> is a well-formed JSON array that \<open>json.loads\<close> decodes (so it
  stays within the interpreter's limits on nesting and on the digits of an integer), an
  array of objects, each with a \<open>description\<close> that is a string and not empty after
  trimming, and whose \<open>assignee\<close>, \<open>due_date\<close> and \<open>priority\<close> are strings
  where they are present. Then \<open>_parse_action_items\<close>
  returns one record per object, in the order of the array: the description, assignee,
  due date and priority are the trimmed fields, and a missing assignee, due date or
  priority is \<open>Unassigned\<close>, \<open>No due date specified\<close> or \<open>Medium\<close>.
\<close>

theorem well_formed_array_is_normalized:
  assumes "91 \<notin> set before" and "93 \<notin> set after"
    and "json_loads L (91 # middle @ [93]) = Inr (JArray (map JObject ds))"
    and "\<forall>d \<in> set ds. described d"
  shows "parse_action_items L (before @ 91 # middle @ 93 # after) = Inr (map normalized ds) \<and>
         length (map normalized ds) = length ds"
  using assms
  by (simp add: parse_action_items_def parse_body_def clean_loop_described json_search_region)

theorem well_formed_array_is_normalized_witness:
  \<open>91 \<notin> set (py ''Items: '') \<and> 93 \<notin> set (py '' Thanks'') \<and>
   json_loads default_limits (91 # py ''{"description":" Send report ","assignee":"Bob"},{"priority":"High","description":"Book room"}'' @ [93]) =
     Inr (JArray (map JObject
       [[(py ''description'', JString (py '' Send report '')), (py ''assignee'', JString (py ''Bob''))],
        [(py ''priority'', JString (py ''High'')), (py ''description'', JString (py ''Book room''))]])) \<and>
   described [(py ''description'', JString (py '' Send report '')), (py ''assignee'', JString (py ''Bob''))] \<and>
   described [(py ''priority'', JString (py ''High'')), (py ''description'', JString (py ''Book room''))] \<and>
   parse_action_items default_limits (py ''Items: [{"description":" Send report ","assignee":"Bob"},{"priority":"High","description":"Book room"}] Thanks'') =
     Inr [\<lparr>description = py ''Send report'', assignee = py ''Bob'',
           due_date = py ''No due date specified'', priority = py ''Medium''\<rparr>,
          \<lparr>description = py ''Book room'', assignee = py ''Unassigned'',
           due_date = py ''No due date specified'', priority = py ''High''\<rparr>]\<close>
proof -
  let ?m = \<open>py ''{"description":" Send report ","assignee":"Bob"},{"priority":"High","description":"Book room"}''\<close>
  let ?d1 = \<open>[(py ''description'', JString (py '' Send report '')), (py ''assignee'', JString (py ''Bob''))]\<close>
  let ?d2 = \<open>[(py ''priority'', JString (py ''High'')), (py ''description'', JString (py ''Book room''))]\<close>
  have a1: "91 \<notin> set (py ''Items: '')" by (simp add: py_def)
  have a2: "93 \<notin> set (py '' Thanks'')" by (simp add: py_def)
  have b: "json_loads default_limits (91 # ?m @ [93]) = Inr (JArray (map JObject [?d1, ?d2]))"
    by (simp add: ev ev_json)
  have c1: "described ?d1"
    by (simp add: described_def missing_or_text_def field_def py_def strip_def isspace_def)
  have c2: "described ?d2"
    by (simp add: described_def missing_or_text_def field_def py_def strip_def isspace_def)
  have c: "\<forall>d \<in> set [?d1, ?d2]. described d" using c1 c2 by simp
  have n: \<open>map normalized [?d1, ?d2] =
     [\<lparr>description = py ''Send report'', assignee = py ''Bob'',
           due_date = py ''No due date specified'', priority = py ''Medium''\<rparr>,
          \<lparr>description = py ''Book room'', assignee = py ''Unassigned'',
           due_date = py ''No due date specified'', priority = py ''High''\<rparr>]\<close>
    by (simp add: normalized_def trimmed_or_def field_def py_def strip_def isspace_def)
  have e: \<open>py ''Items: '' @ 91 # ?m @ 93 # py '' Thanks'' =
    py ''Items: [{"description":" Send report ","assignee":"Bob"},{"priority":"High","description":"Book room"}] Thanks''\<close>
    by (simp add: py_def)
  from well_formed_array_is_normalized[OF a1 a2 b c] n e
  have \<open>parse_action_items default_limits (py ''Items: [{"description":" Send report ","assignee":"Bob"},{"priority":"High","description":"Book room"}] Thanks'') =
     Inr [\<lparr>description = py ''Send report'', assignee = py ''Bob'',
           due_date = py ''No due date specified'', priority = py ''Medium''\<rparr>,
          \<lparr>description = py ''Book room'', assignee = py ''Unassigned'',
           due_date = py ''No due date specified'', priority = py ''High''\<rparr>]\<close>
    by simp
  with a1 a2 b c1 c2 show ?thesis by blast
qed

text \<open>
  C1 as stated fails: \<open>[{"description":"x","assignee":null}]\<close> is a well-formed JSON
  array of one object with a non-empty description, and the extractor returns the empty
  list (\<open>None\<close> has no \<open>strip\<close>, and the handler at lines 174 to 176 returns \<open>[]\<close>).
\<close>

theorem null_assignee_gives_empty_list:
  \<open>json_search (py ''[{"description":"x","assignee":null}]'') =
     Some (py ''[{"description":"x","assignee":null}]'') \<and>
   json_loads default_limits (py ''[{"description":"x","assignee":null}]'') =
     Inr (JArray [JObject [(py ''description'', JString (py ''x'')), (py ''assignee'', JNull)]]) \<and>
   parse_action_items default_limits (py ''[{"description":"x","assignee":null}]'') = Inr []\<close>
  by (simp add: ev ev_json)

text \<open>
  C2, as the code has it. For every input \<open>_parse_action_items\<close> returns a list and
  raises nothing. When the structured path fails because \<open>json.loads\<close> rejects the
  bracketed region as malformed (\<open>JSONDecodeError\<close>), the result is the result of the
  line-based fallback on the same input. On any other failure while parsing or
  normalising the region (an \<open>AttributeError\<close> for a field that is not a string and
  has no \<open>strip\<close>, a \<open>ValueError\<close> or \<open>RecursionError\<close> of \<open>json.loads\<close>),
  the handler at lines 174 to 176 returns the empty list, not the fallback's result.
  The fallback is a total function: on the empty input it returns the empty list.
\<close>

theorem extractor_never_raises:
  "(\<exists>items. parse_action_items L response = Inr items) \<and>
   (parse_body L response = Inl JSONDecodeError \<longrightarrow>
      parse_action_items L response = Inr (parse_text_action_items response)) \<and>
   (\<forall>e. parse_body L response = Inl e \<and> e \<noteq> JSONDecodeError \<longrightarrow>
      parse_action_items L response = Inr []) \<and>
   parse_text_action_items [] = []"
proof (intro conjI allI impI)
  show "\<exists>items. parse_action_items L response = Inr items" by (rule parse_action_items_returns)
  show "parse_action_items L response = Inr (parse_text_action_items response)"
    if "parse_body L response = Inl JSONDecodeError"
    using that by (simp add: parse_action_items_def)
  show "parse_action_items L response = Inr []"
    if "parse_body L response = Inl e \<and> e \<noteq> JSONDecodeError" for e
    using that by (cases e) (simp_all add: parse_action_items_def)
  show "parse_text_action_items [] = []"
    by (simp add: parse_text_action_items_def strip_def)
qed

text \<open>
  A witness for both kinds of failure: a region with a trailing comma goes to the
  fallback, a numeric description gives the empty list.
\<close>

theorem extractor_never_raises_witness:
  \<open>parse_body default_limits (py ''- call Bob [1,]'') = Inl JSONDecodeError \<and>
   parse_action_items default_limits (py ''- call Bob [1,]'') =
     Inr [text_item (py ''call Bob [1,]'')] \<and>
   parse_body default_limits (py ''- call Bob [{"description":1}]'') = Inl AttributeError \<and>
   parse_action_items default_limits (py ''- call Bob [{"description":1}]'') = Inr []\<close>
proof -
  have a: \<open>parse_body default_limits (py ''- call Bob [1,]'') = Inl JSONDecodeError\<close>
    by (simp add: ev ev_json)
  have b: \<open>parse_body default_limits (py ''- call Bob [{"description":1}]'') = Inl AttributeError\<close>
    by (simp add: ev ev_json)
  have c: \<open>parse_text_action_items (py ''- call Bob [1,]'') = [text_item (py ''call Bob [1,]'')]\<close>
    by (simp add: ev)
  from extractor_never_raises[of default_limits \<open>py ''- call Bob [1,]''\<close>] a c
  have d: \<open>parse_action_items default_limits (py ''- call Bob [1,]'') =
     Inr [text_item (py ''call Bob [1,]'')]\<close>
    by simp
  from extractor_never_raises[of default_limits \<open>py ''- call Bob [{"description":1}]''\<close>] b
  have e: \<open>parse_action_items default_limits (py ''- call Bob [{"description":1}]'') = Inr []\<close>
    by auto
  from a b d e show ?thesis by blast
qed

text \<open>
  C2 as stated fails: on \<open>- call Bob [{"description":1}]\<close> the structured path fails
  while normalising (the description is a number), and the extractor returns the empty
  list although the fallback on the same input returns one record.
\<close>

theorem other_failure_is_not_fallback:
  \<open>parse_body default_limits (py ''- call Bob [{"description":1}]'') = Inl AttributeError \<and>
   parse_action_items default_limits (py ''- call Bob [{"description":1}]'') = Inr [] \<and>
   parse_text_action_items (py ''- call Bob [{"description":1}]'') =
     [text_item (py ''call Bob [{"description":1}]'')]\<close>
  by (simp add: ev ev_json)

text \<open>
  C3, as the code has it. The input \<open>No action items this week.\<close> has no bracket, so
  the fallback decides; its only line has no bullet but contains \<open>action\<close>, so the
  extractor returns one record whose description is the whole line, with the default
  assignee, due date and priority. (The claim says the result is empty.)
\<close>

theorem no_action_items_line_is_an_item:
  \<open>parse_action_items L (py ''No action items this week.'') =
     Inr [\<lparr>description = py ''No action items this week.'', assignee = py ''Unassigned'',
           due_date = py ''No due date specified'', priority = py ''Medium''\<rparr>]\<close>
  by (simp add: ev)

text \<open>C3 as stated fails: the result for that input is not the empty sequence.\<close>

theorem no_action_items_line_not_empty:
  \<open>parse_action_items default_limits (py ''No action items this week.'') \<noteq> Inr []\<close>
  by (simp add: ev)

text \<open>
  C5, as the code has it. Whenever the line-based fallback decides (no bracket pair, or
  a bracketed region that is malformed JSON), the extractor returns the fallback's list,
  which has at most 10 entries; and when 15 lines of the input qualify and each has
  text left once its bullet marker is stripped (so each yields a record), the output is
  exactly the records of the first 10 of them, in the order of the input.
\<close>

theorem fallback_output_capped:
  assumes "fallback_runs L response"
  shows "parse_action_items L response = Inr (parse_text_action_items response) \<and>
         length (parse_text_action_items response) \<le> 10 \<and>
         (length (filter emitted (split_lines response)) = 15 \<longrightarrow>
            parse_text_action_items response =
              map (\<lambda>l. text_item (bullet_stripped l))
                (take 10 (filter emitted (split_lines response))) \<and>
            length (parse_text_action_items response) = 10)"
proof (intro conjI impI)
  show "parse_action_items L response = Inr (parse_text_action_items response)"
    using assms by (rule fallback_runs_result)
  show "length (parse_text_action_items response) \<le> 10" by (rule parse_text_length)
  show "parse_text_action_items response =
          map (\<lambda>l. text_item (bullet_stripped l))
            (take 10 (filter emitted (split_lines response)))"
    by (rule parse_text_filter)
  assume "length (filter emitted (split_lines response)) = 15"
  then show "length (parse_text_action_items response) = 10"
    by (simp add: parse_text_filter)
qed

theorem fallback_output_capped_witness:
  "fallback_runs default_limits fifteen_bullets \<and>
   length (filter emitted (split_lines fifteen_bullets)) = 15 \<and>
   parse_action_items default_limits fifteen_bullets = Inr (parse_text_action_items fifteen_bullets) \<and>
   length (parse_text_action_items fifteen_bullets) = 10 \<and>
   map description (parse_text_action_items fifteen_bullets) =
     [py ''a'', py ''b'', py ''c'', py ''d'', py ''e'', py ''f'', py ''g'', py ''h'', py ''i'',
      py ''j'']"
proof -
  have a: "fallback_runs default_limits fifteen_bullets" by (simp add: ev fifteen_bullets_def)
  have b: "length (filter emitted (split_lines fifteen_bullets)) = 15" by (simp add: ev fifteen_bullets_def)
  have c: "map description (parse_text_action_items fifteen_bullets) =
     [py ''a'', py ''b'', py ''c'', py ''d'', py ''e'', py ''f'', py ''g'', py ''h'', py ''i'',
      py ''j'']" by (simp add: ev fifteen_bullets_def)
  from fallback_output_capped[OF a] a b c show ?thesis by blast
qed

text \<open>
  C5 as stated fails: an input of fifteen lines that are a bullet marker and nothing
  else has no bracket, all fifteen lines qualify (line 185), the fallback decides, and
  nothing is left of any of them once the marker is stripped (line 188), so the output
  is empty instead of having 10 entries.
\<close>

theorem bare_bullets_give_empty_list:
  "json_search fifteen_bare_bullets = None \<and>
   fallback_runs default_limits fifteen_bare_bullets \<and>
   length (filter treated_as_action_item (split_lines fifteen_bare_bullets)) = 15 \<and>
   parse_action_items default_limits fifteen_bare_bullets = Inr []"
  by (simp add: ev fifteen_bare_bullets_def)

text \<open>
  C6. The loop of the fallback (lines 183 to 194) emits a record for a line exactly when
  the line, after trimming, is non-empty and starts with \<open>-\<close> or \<open>*\<close> or contains
  \<open>action\<close> in its lowercase form, and something remains once a single leading bullet
  marker and the surrounding whitespace are stripped; the record's description is what
  remains, the other fields are the defaults, and the records follow the order of the
  lines (the function returns the first ten of them). For the input
  \<open>- Follow up with client\<close>, \<open>* Schedule demo\<close>, \<open>No other notes.\<close> on three lines
  the extractor returns exactly the two records \<open>Follow up with client\<close> and
  \<open>Schedule demo\<close>, both with the default assignee, due date and priority.
\<close>

theorem fallback_loop_emits_action_lines:
  \<open>text_loop lines [] = map (\<lambda>l. text_item (bullet_stripped l)) (filter emitted lines) \<and>
   parse_text_action_items text =
     take 10 (map (\<lambda>l. text_item (bullet_stripped l)) (filter emitted (split_lines text))) \<and>
   parse_action_items L
     (py ''- Follow up with client'' @ [10] @ py ''* Schedule demo'' @ [10] @ py ''No other notes.'') =
     Inr [\<lparr>description = py ''Follow up with client'', assignee = py ''Unassigned'',
           due_date = py ''No due date specified'', priority = py ''Medium''\<rparr>,
          \<lparr>description = py ''Schedule demo'', assignee = py ''Unassigned'',
           due_date = py ''No due date specified'', priority = py ''Medium''\<rparr>]\<close>
proof (intro conjI)
  show "text_loop lines [] = map (\<lambda>l. text_item (bullet_stripped l)) (filter emitted lines)"
    by (simp add: text_loop_filter)
  show "parse_text_action_items text =
     take 10 (map (\<lambda>l. text_item (bullet_stripped l)) (filter emitted (split_lines text)))"
    by (simp add: parse_text_action_items_def text_loop_filter)
  show \<open>parse_action_items L
     (py ''- Follow up with client'' @ [10] @ py ''* Schedule demo'' @ [10] @ py ''No other notes.'') =
     Inr [\<lparr>description = py ''Follow up with client'', assignee = py ''Unassigned'',
           due_date = py ''No due date specified'', priority = py ''Medium''\<rparr>,
          \<lparr>description = py ''Schedule demo'', assignee = py ''Unassigned'',
           due_date = py ''No due date specified'', priority = py ''Medium''\<rparr>]\<close>
    by (simp add: ev)
qed

text \<open>
  C7. In both tiers every record the extractor returns has a description that is not
  empty after trimming whitespace: this holds of every list \<open>_parse_action_items\<close>
  returns and of every list the fallback \<open>_parse_text_action_items\<close> returns. For the
  input of scenario 1 the output is the single record \<open>Send report\<close>, \<open>Bob\<close>,
  \<open>2024-01-05\<close>, \<open>High\<close>: the entry with the empty description is dropped (in any
  interpreter that lets the decoder enter the array and its objects, two levels).
\<close>

theorem descriptions_never_blank:
  \<open>(\<forall>items. parse_action_items L response = Inr items \<longrightarrow>
      (\<forall>item \<in> set items. strip (description item) \<noteq> [])) \<and>
   (\<forall>item \<in> set (parse_text_action_items text). strip (description item) \<noteq> []) \<and>
   (2 \<le> max_nesting L \<longrightarrow>
    parse_action_items L
     (py ''Here are the items: [{"description":"Send report","assignee":"Bob","due_date":"2024-01-05","priority":"High"},{"description":"","assignee":"Amy"}]'') =
     Inr [\<lparr>description = py ''Send report'', assignee = py ''Bob'',
           due_date = py ''2024-01-05'', priority = py ''High''\<rparr>])\<close>
proof (intro conjI allI impI)
  fix items
  assume r: "parse_action_items L response = Inr items"
  show "\<forall>item \<in> set items. strip (description item) \<noteq> []"
  proof (cases "parse_body L response")
    case (Inl e)
    then have "items = parse_text_action_items response \<or> items = []"
      using r by (cases e) (auto simp: parse_action_items_def)
    then show ?thesis using parse_text_descriptions by auto
  next
    case (Inr xs)
    then have eq: "xs = items" using r by (simp add: parse_action_items_def)
    show ?thesis
    proof (cases "json_search response")
      case None
      then have "items = parse_text_action_items response"
        using Inr eq by (simp add: parse_body_def)
      then show ?thesis using parse_text_descriptions by simp
    next
      case (Some region)
      then obtain v where v: "json_loads L region = Inr v" and c: "clean_items v = Inr items"
        using Inr eq by (auto simp: parse_body_def split: sum.splits)
      show ?thesis
      proof (cases v)
        case (JArray vs)
        then have "clean_loop vs [] = Inr items" using c by simp
        then show ?thesis using clean_loop_descriptions by fastforce
      qed (use c in auto)
    qed
  qed
next
  show "\<forall>item \<in> set (parse_text_action_items text). strip (description item) \<noteq> []"
    by (rule parse_text_descriptions)
next
  assume "2 \<le> max_nesting L"
  then have n: "0 < max_nesting L" "max_nesting L \<noteq> 0" "\<not> max_nesting L \<le> Suc 0"
    by simp_all
  show \<open>parse_action_items L
     (py ''Here are the items: [{"description":"Send report","assignee":"Bob","due_date":"2024-01-05","priority":"High"},{"description":"","assignee":"Amy"}]'') =
     Inr [\<lparr>description = py ''Send report'', assignee = py ''Bob'',
           due_date = py ''2024-01-05'', priority = py ''High''\<rparr>]\<close>
    by (simp add: ev ev_json n)
qed

theorem descriptions_never_blank_witness:
  \<open>parse_action_items default_limits (py ''Notes: [{"description":"  Call Amy ","priority":"Low"},{"description":"   "}]'') =
     Inr [\<lparr>description = py ''Call Amy'', assignee = py ''Unassigned'',
           due_date = py ''No due date specified'', priority = py ''Low''\<rparr>] \<and>
   strip (py ''Call Amy'') \<noteq> [] \<and>
   parse_text_action_items (py ''- Call Amy'') = [text_item (py ''Call Amy'')] \<and>
   2 \<le> max_nesting default_limits \<and>
   parse_action_items default_limits
     (py ''Here are the items: [{"description":"Send report","assignee":"Bob","due_date":"2024-01-05","priority":"High"},{"description":"","assignee":"Amy"}]'') =
     Inr [\<lparr>description = py ''Send report'', assignee = py ''Bob'',
           due_date = py ''2024-01-05'', priority = py ''High''\<rparr>]\<close>
proof -
  let ?r = \<open>py ''Notes: [{"description":"  Call Amy ","priority":"Low"},{"description":"   "}]''\<close>
  let ?i = \<open>\<lparr>description = py ''Call Amy'', assignee = py ''Unassigned'',
           due_date = py ''No due date specified'', priority = py ''Low''\<rparr>\<close>
  have a: "parse_action_items default_limits ?r = Inr [?i]" by (simp add: ev ev_json)
  have b: \<open>parse_text_action_items (py ''- Call Amy'') = [text_item (py ''Call Amy'')]\<close>
    by (simp add: ev)
  have m: "2 \<le> max_nesting default_limits" by (simp add: default_limits_def)
  note t = descriptions_never_blank[of default_limits ?r "py ''- Call Amy''"]
  from t a have c: "strip (description ?i) \<noteq> []" by simp
  from t m have d: \<open>parse_action_items default_limits
     (py ''Here are the items: [{"description":"Send report","assignee":"Bob","due_date":"2024-01-05","priority":"High"},{"description":"","assignee":"Amy"}]'') =
     Inr [\<lparr>description = py ''Send report'', assignee = py ''Bob'',
           due_date = py ''2024-01-05'', priority = py ''High''\<rparr>]\<close>
    by blast
  from a b c d m show ?thesis by simp
qed

text \<open>
  C8, as the code has it. Take the fallback's output for any input and render it as
  plain text, the descriptions one per line. Running the extractor on that text raises
  nothing and returns a list; the fallback run on it returns no more records than the
  original output, which has at most 10; so whenever the line-based fallback decides the
  second run too (the rendering has no bracket pair, or its bracketed region is
  malformed JSON), the extractor's second result is no longer than the first.
\<close>

theorem rerun_on_fallback_output:
  "(\<exists>items. parse_action_items L (render (parse_text_action_items text)) = Inr items) \<and>
   length (parse_text_action_items (render (parse_text_action_items text)))
     \<le> length (parse_text_action_items text) \<and>
   length (parse_text_action_items text) \<le> 10 \<and>
   (fallback_runs L (render (parse_text_action_items text)) \<longrightarrow>
      (\<exists>items. parse_action_items L (render (parse_text_action_items text)) = Inr items \<and>
               length items \<le> length (parse_text_action_items text)))"
proof (intro conjI impI)
  show "\<exists>items. parse_action_items L (render (parse_text_action_items text)) = Inr items"
    by (rule parse_action_items_returns)
  show "length (parse_text_action_items (render (parse_text_action_items text)))
     \<le> length (parse_text_action_items text)"
    by (rule rerun_length)
  show "length (parse_text_action_items text) \<le> 10" by (rule parse_text_length)
  assume "fallback_runs L (render (parse_text_action_items text))"
  then have "parse_action_items L (render (parse_text_action_items text)) =
      Inr (parse_text_action_items (render (parse_text_action_items text)))"
    by (rule fallback_runs_result)
  then show "\<exists>items. parse_action_items L (render (parse_text_action_items text)) = Inr items \<and>
               length items \<le> length (parse_text_action_items text)"
    using rerun_length by simp
qed

theorem rerun_on_fallback_output_witness:
  \<open>parse_text_action_items (py ''- take action'' @ [10] @ py ''* plan demo'') =
     [text_item (py ''take action''), text_item (py ''plan demo'')] \<and>
   render (parse_text_action_items (py ''- take action'' @ [10] @ py ''* plan demo'')) =
     py ''take action'' @ [10] @ py ''plan demo'' \<and>
   fallback_runs default_limits (py ''take action'' @ [10] @ py ''plan demo'') \<and>
   parse_action_items default_limits (py ''take action'' @ [10] @ py ''plan demo'') =
     Inr [text_item (py ''take action'')]\<close>
proof -
  let ?t = \<open>py ''- take action'' @ [10] @ py ''* plan demo''\<close>
  have a: \<open>parse_text_action_items ?t = [text_item (py ''take action''), text_item (py ''plan demo'')]\<close>
    by (simp add: ev)
  have b: \<open>render (parse_text_action_items ?t) = py ''take action'' @ [10] @ py ''plan demo''\<close>
    unfolding a by (simp add: ev)
  have c: \<open>fallback_runs default_limits (py ''take action'' @ [10] @ py ''plan demo'')\<close>
    by (simp add: ev)
  have d: \<open>parse_action_items default_limits (py ''take action'' @ [10] @ py ''plan demo'') =
     Inr [text_item (py ''take action'')]\<close>
    by (simp add: ev)
  from rerun_on_fallback_output[of default_limits ?t] a b c d show ?thesis by simp
qed

text \<open>
  C8 as stated fails. On the two lines \<open>- [{"description":"a"},{"description":"b"}]\<close>
  and \<open>]\<close> the bracketed region is malformed, so the fallback decides and returns one
  record; its rendering is a well-formed array, and the extractor run on it returns two
  records.
\<close>

theorem rerun_can_return_more:
  \<open>fallback_runs default_limits (py ''- [{"description":"a"},{"description":"b"}]'' @ [10] @ py '']'') \<and>
   parse_action_items default_limits (py ''- [{"description":"a"},{"description":"b"}]'' @ [10] @ py '']'') =
     Inr [text_item (py ''[{"description":"a"},{"description":"b"}]'')] \<and>
   render [text_item (py ''[{"description":"a"},{"description":"b"}]'')] =
     py ''[{"description":"a"},{"description":"b"}]'' \<and>
   parse_action_items default_limits (py ''[{"description":"a"},{"description":"b"}]'') =
     Inr [text_item (py ''a''), text_item (py ''b'')]\<close>
  by (simp add: ev ev_json)

section \<open>The claims about the adapters and the upload handler\<close>




text \<open>
  C9. Whenever \<open>POST /process_audio\<close> answers with success, the \<open>transcription\<close>
  field of the JSON is the transcription of the uploaded file itself when that has at
  most 500 characters, and otherwise its first 500 characters followed by \<open>...\<close>.
\<close>

theorem transcription_field_is_truncated:
  assumes "process_audio E req w = (Success b, w')"
  shows "\<exists>file t. files req (py ''audio_file'') = Some file \<and>
           transcribe_audio E (upload_path E file) = Inr t \<and>
           r_transcription b = (if length t \<le> 500 then t else take 500 t @ py ''...'')"
proof -
  from process_audio_success[OF assms] obtain up where
    f: "files req (py ''audio_file'') = Some up" "filename up \<noteq> []"
      "save_error E (upload_path E up) = None"
    by blast
  let ?p = "upload_path E up"
  let ?w = "w\<lparr>uploads := (uploads w)(?p \<mapsto> content up)\<rparr>"
  have run: "process_saved E req ?p ?w = (Success b, w')"
    using assms process_audio_saved[OF f] by simp
  have present: "uploads ?w ?p = Some (content up)" by simp
  from process_saved_outcome[OF present run]
  obtain t where "transcribe_audio E ?p = Inr t" "r_transcription b = shown_transcription t"
    by auto
  then show ?thesis using f(1) by (auto simp: shown_transcription_def)
qed

theorem transcription_field_is_truncated_witness:
  \<open>fst (process_audio (demo_env (Inr (replicate 600 97)) two_items_answer None (\<lambda>k. None))
          demo_request empty_world) =
     Success \<lparr>r_success = True, r_meeting_id = 1, r_summary = py ''# Summary'',
               r_action_items = [text_item (py ''Send report''), text_item (py ''Book room'')],
               r_transcription = replicate 500 97 @ py ''...''\<rparr> \<and>
   transcribe_audio (demo_env (Inr (replicate 600 97)) two_items_answer None (\<lambda>k. None))
     (py ''uploads/talk.wav'') = Inr (replicate 600 97) \<and>
   replicate 500 97 @ py ''...'' = take 500 (replicate 600 97) @ py ''...''\<close>
proof -
  let ?E = "demo_env (Inr (replicate 600 97)) two_items_answer None (\<lambda>k. None)"
  let ?b = \<open>\<lparr>r_success = True, r_meeting_id = 1, r_summary = py ''# Summary'',
               r_action_items = [text_item (py ''Send report''), text_item (py ''Book room'')],
               r_transcription = replicate 500 97 @ py ''...''\<rparr>\<close>
  have a: "fst (process_audio ?E demo_request empty_world) = Success ?b"
    by (simp add: ev_handler ev ev_json two_items_answer_def)
  then have "process_audio ?E demo_request empty_world =
      (Success ?b, snd (process_audio ?E demo_request empty_world))"
    by (metis prod.collapse)
  from transcription_field_is_truncated[OF this]
  obtain up t where f1: "files demo_request (py ''audio_file'') = Some up"
    and f2: "transcribe_audio ?E (upload_path ?E up) = Inr t"
    and f3: "r_transcription ?b = (if length t \<le> 500 then t else take 500 t @ py ''...'')"
    by blast
  have up: "up = demo_upload" using f1 by (simp add: demo_request_def)
  have path: "upload_path ?E demo_upload = py ''uploads/talk.wav''"
    by (simp add: ev_handler ev)
  have c: "transcribe_audio ?E (py ''uploads/talk.wav'') = Inr (replicate 600 97)"
    by (simp add: ev_handler ev)
  have t: "t = replicate 600 97" using f2 c unfolding up path by simp
  have "r_transcription ?b = take 500 (replicate 600 97) @ py ''...''"
    using f3 unfolding t by simp
  then have "replicate 500 97 @ py ''...'' = take 500 (replicate 600 97) @ py ''...''"
    by simp
  with a c show ?thesis by blast
qed

text \<open>
  C10. Take a request whose file was saved under its upload path. The run of the
  handler ends in exactly one of four ways. The transcription raises: the answer is 500
  with the error text and the state is the one right after the save. The insert of the
  meeting raises: the answer is 500, and no row was added. The insert of the \<open>k\<close>-th
  action item raises: the answer is 500, and the meeting row and the \<open>k\<close> item rows
  inserted before stay in the database. Nothing raises: the answer is the success JSON
  and the file is removed. So in every run that answers with an error the answer is 500
  and the uploaded file is still in the upload folder with the uploaded content, and the
  file is gone only after a success. (Summarization and extraction never raise, see C4.)
\<close>

theorem upload_removed_only_on_success:
  assumes "files req (py ''audio_file'') = Some upl" and "filename upl \<noteq> []"
    and "save_error E (upload_path E upl) = None"
    and "process_audio E req w = (r, w')"
  shows "(case r of
            Success b \<Rightarrow> uploads w' (upload_path E upl) = None
          | Error code msg \<Rightarrow>
              code = 500 \<and> uploads w' (upload_path E upl) = Some (content upl)) \<and>
         ((\<exists>e. transcribe_audio E (upload_path E upl) = Inl e \<and> r = Error 500 e \<and>
              w' = w\<lparr>uploads := (uploads w)(upload_path E upl \<mapsto> content upl)\<rparr>) \<or>
          (\<exists>t e. transcribe_audio E (upload_path E upl) = Inr t \<and>
              meeting_insert_error E = Some e \<and> r = Error 500 e \<and>
              meeting_rows w' = meeting_rows w \<and> item_rows w' = item_rows w) \<or>
          (\<exists>t e k row rows. transcribe_audio E (upload_path E upl) = Inr t \<and>
              meeting_insert_error E = None \<and> item_insert_error E k = Some e \<and>
              r = Error 500 e \<and> meeting_rows w' = meeting_rows w @ [row] \<and>
              item_rows w' = item_rows w @ rows \<and> length rows = k) \<or>
          (\<exists>t b row rows. transcribe_audio E (upload_path E upl) = Inr t \<and>
              meeting_insert_error E = None \<and> r = Success b \<and>
              meeting_rows w' = meeting_rows w @ [row] \<and>
              item_rows w' = item_rows w @ rows \<and> length rows = length (r_action_items b)))"
  using assms by (rule process_audio_outcome)

theorem upload_removed_only_on_success_witness:
  \<open>files demo_request (py ''audio_file'') = Some demo_upload \<and>
   filename demo_upload \<noteq> [] \<and>
   upload_path (demo_env (Inr (py ''We will send the report.'')) two_items_answer None
       (\<lambda>k. if k = 1 then Some (py ''database is locked'') else None)) demo_upload =
     py ''uploads/talk.wav'' \<and>
   fst (process_audio
     (demo_env (Inr (py ''We will send the report.'')) two_items_answer None
       (\<lambda>k. if k = 1 then Some (py ''database is locked'') else None))
     demo_request empty_world) = Error 500 (py ''database is locked'') \<and>
   uploads (snd (process_audio
     (demo_env (Inr (py ''We will send the report.'')) two_items_answer None
       (\<lambda>k. if k = 1 then Some (py ''database is locked'') else None))
     demo_request empty_world)) (py ''uploads/talk.wav'') = Some (py ''RIFF'') \<and>
   length (meeting_rows (snd (process_audio
     (demo_env (Inr (py ''We will send the report.'')) two_items_answer None
       (\<lambda>k. if k = 1 then Some (py ''database is locked'') else None))
     demo_request empty_world))) = 1 \<and>
   length (item_rows (snd (process_audio
     (demo_env (Inr (py ''We will send the report.'')) two_items_answer None
       (\<lambda>k. if k = 1 then Some (py ''database is locked'') else None))
     demo_request empty_world))) = 1\<close>
proof -
  let ?E = \<open>demo_env (Inr (py ''We will send the report.'')) two_items_answer None
       (\<lambda>k. if k = 1 then Some (py ''database is locked'') else None)\<close>
  let ?run = "process_audio ?E demo_request empty_world"
  have f1: "files demo_request (py ''audio_file'') = Some demo_upload"
    by (simp add: demo_request_def)
  have f2: "filename demo_upload \<noteq> []" by (simp add: demo_upload_def py_def)
  have f3: "save_error ?E (upload_path ?E demo_upload) = None" by (simp add: demo_env_def)
  have p: "upload_path ?E demo_upload = py ''uploads/talk.wav''" by (simp add: ev_handler ev)
  have c: "content demo_upload = py ''RIFF''" by (simp add: demo_upload_def)
  have r: "fst ?run = Error 500 (py ''database is locked'')"
    by (simp add: ev_handler ev ev_json two_items_answer_def)
  have m: "length (meeting_rows (snd ?run)) = 1"
    by (simp add: ev_handler ev ev_json two_items_answer_def)
  have i: "length (item_rows (snd ?run)) = 1"
    by (simp add: ev_handler ev ev_json two_items_answer_def)
  have "?run = (fst ?run, snd ?run)" by simp
  from upload_removed_only_on_success[OF f1 f2 f3 this]
  have "uploads (snd ?run) (upload_path ?E demo_upload) = Some (content demo_upload)"
    unfolding r by simp
  then have "uploads (snd ?run) (py ''uploads/talk.wav'') = Some (py ''RIFF'')"
    unfolding p c .
  with f1 f2 p r m i show ?thesis by blast
qed


end
